theory Spec2Isabelle
  imports Complex_Main "HOL-Library.Word"
begin

unbundle bit_operations_syntax

section \<open>The FIT decoder (js/lib/fit-parser.js)\<close>

subsection \<open>DataView reads\<close>

text \<open>
  The buffer is the list of its bytes. A DataView read whose last byte lies beyond the
  buffer throws a RangeError; the only other error of the decoder is the
  \<open>Error('Invalid FIT file signature')\<close> thrown by \<open>parse\<close>.
\<close>

type_synonym byte = "8 word"

datatype error = RangeError | FormatError

definition getUint8 :: "byte list \<Rightarrow> nat \<Rightarrow> error + nat" where
  "getUint8 dataView offset =
     (if offset < length dataView then Inr (unat (dataView ! offset)) else Inl RangeError)"

definition getUint16 :: "byte list \<Rightarrow> nat \<Rightarrow> bool \<Rightarrow> error + nat" where
  "getUint16 dataView offset littleEndian =
     (if offset + 2 \<le> length dataView then
        (let b0 = unat (dataView ! offset); b1 = unat (dataView ! (offset + 1))
         in Inr (if littleEndian then b0 + 256 * b1 else 256 * b0 + b1))
      else Inl RangeError)"

definition getUint32 :: "byte list \<Rightarrow> nat \<Rightarrow> bool \<Rightarrow> error + nat" where
  "getUint32 dataView offset littleEndian =
     (if offset + 4 \<le> length dataView then
        (let b0 = unat (dataView ! offset); b1 = unat (dataView ! (offset + 1));
             b2 = unat (dataView ! (offset + 2)); b3 = unat (dataView ! (offset + 3))
         in Inr (if littleEndian then b0 + 256 * b1 + 65536 * b2 + 16777216 * b3
                 else 16777216 * b0 + 65536 * b1 + 256 * b2 + b3))
      else Inl RangeError)"

definition getInt32 :: "byte list \<Rightarrow> nat \<Rightarrow> bool \<Rightarrow> error + int" where
  "getInt32 dataView offset littleEndian =
     (case getUint32 dataView offset littleEndian of
        Inl e \<Rightarrow> Inl e
      | Inr u \<Rightarrow> Inr (if u < 2147483648 then int u else int u - 4294967296))"

subsection \<open>Schemas, field values and the activity\<close>

text \<open>
  A decoded field value is a number, an array of raw bytes (widths other than 1, 2, 4)
  or null (the value \<open>readFieldValue\<close> substitutes when a read fails).
\<close>

datatype fval = Null | Number int | Bytes "nat list"

record fieldDef =
  field_num :: nat
  field_size :: nat
  field_type :: nat

record msgDef =
  globalMsgNum :: nat
  msg_fields :: "fieldDef list"
  isLittleEndian :: bool

type_synonym registry = "nat \<rightharpoonup> msgDef"

type_synonym fieldValues = "nat \<rightharpoonup> fval"

text \<open>
  The builders \<open>processSession\<close>, \<open>processLap\<close> and \<open>processRecord\<close> compute a
  summary object from the field map \<open>values\<close> by floating-point scaling and push it on
  the activity; \<open>calculateDerivedMetrics\<close> then averages over those objects. None of them
  reads the buffer, touches the schema table or contains a throw. The activity is therefore
  represented by the field maps its sessions, laps and records are built from, in the order
  they are pushed; the scaled summary fields are not part of this model.
\<close>

record activity =
  sessions :: "fieldValues list"
  laps :: "fieldValues list"
  records :: "fieldValues list"

definition newActivity :: activity where
  "newActivity = \<lparr>sessions = [], laps = [], records = []\<rparr>"

definition processSession :: "fieldValues \<Rightarrow> activity \<Rightarrow> activity" where
  "processSession vals act = act\<lparr>sessions := sessions act @ [vals]\<rparr>"

definition processLap :: "fieldValues \<Rightarrow> activity \<Rightarrow> activity" where
  "processLap vals act = act\<lparr>laps := laps act @ [vals]\<rparr>"

definition processRecord :: "fieldValues \<Rightarrow> activity \<Rightarrow> activity" where
  "processRecord vals act = act\<lparr>records := records act @ [vals]\<rparr>"

definition processMessage :: "nat \<Rightarrow> fieldValues \<Rightarrow> activity \<Rightarrow> activity" where
  "processMessage msgNum vals act =
     (if msgNum = 18 then processSession vals act
      else if msgNum = 19 then processLap vals act
      else if msgNum = 20 then processRecord vals act
      else act)"

subsection \<open>readFieldValue\<close>

text \<open>The loop of the default branch: \<open>size\<close> single-byte reads starting at \<open>offset\<close>.\<close>

fun readBytes :: "byte list \<Rightarrow> nat \<Rightarrow> nat \<Rightarrow> error + nat list" where
  "readBytes dataView offset 0 = Inr []"
| "readBytes dataView offset (Suc n) =
     (case getUint8 dataView offset of
        Inl e \<Rightarrow> Inl e
      | Inr b \<Rightarrow> (case readBytes dataView (Suc offset) n of
                   Inl e \<Rightarrow> Inl e
                 | Inr bs \<Rightarrow> Inr (b # bs)))"

text \<open>The body of the try block.\<close>

definition readFieldValue_try :: "byte list \<Rightarrow> nat \<Rightarrow> fieldDef \<Rightarrow> bool \<Rightarrow> error + fval" where
  "readFieldValue_try dataView offset field littleEndian =
     (if field_size field = 1 then map_sum id (\<lambda>n. Number (int n)) (getUint8 dataView offset)
      else if field_size field = 2 then
        map_sum id (\<lambda>n. Number (int n)) (getUint16 dataView offset littleEndian)
      else if field_size field = 4 then
        (if field_type field = 0x85 \<or> field_type field = 0x84
         then map_sum id Number (getInt32 dataView offset littleEndian)
         else map_sum id (\<lambda>n. Number (int n)) (getUint32 dataView offset littleEndian))
      else map_sum id Bytes (readBytes dataView offset (field_size field)))"

text \<open>The catch clause turns every exception of the body into null.\<close>

definition readFieldValue :: "byte list \<Rightarrow> nat \<Rightarrow> fieldDef \<Rightarrow> bool \<Rightarrow> fval" where
  "readFieldValue dataView offset field littleEndian =
     (case readFieldValue_try dataView offset field littleEndian of
        Inl e \<Rightarrow> Null
      | Inr v \<Rightarrow> v)"

subsection \<open>parseMessage\<close>

text \<open>The loop over the field definitions of a definition message (three bytes each).\<close>

fun readFieldDefs :: "byte list \<Rightarrow> nat \<Rightarrow> nat \<Rightarrow> error + fieldDef list" where
  "readFieldDefs dataView offset 0 = Inr []"
| "readFieldDefs dataView offset (Suc n) =
     (case getUint8 dataView offset of
        Inl e \<Rightarrow> Inl e
      | Inr fnum \<Rightarrow>
     (case getUint8 dataView (offset + 1) of
        Inl e \<Rightarrow> Inl e
      | Inr fsize \<Rightarrow>
     (case getUint8 dataView (offset + 2) of
        Inl e \<Rightarrow> Inl e
      | Inr ftype \<Rightarrow>
     (case readFieldDefs dataView (offset + 3) n of
        Inl e \<Rightarrow> Inl e
      | Inr fs \<Rightarrow>
          Inr (\<lparr>field_num = fnum, field_size = fsize, field_type = ftype\<rparr> # fs)))))"

text \<open>
  The loop over the fields of a data message: every value is read (null on failure)
  and the offset advances by the declared width whether or not the read succeeded.
\<close>

fun readFields ::
  "byte list \<Rightarrow> bool \<Rightarrow> fieldDef list \<Rightarrow> nat \<Rightarrow> fieldValues \<Rightarrow> fieldValues \<times> nat" where
  "readFields dataView littleEndian [] offset vals = (vals, offset)"
| "readFields dataView littleEndian (field # rest) offset vals =
     readFields dataView littleEndian rest (offset + field_size field)
       (vals(field_num field \<mapsto> readFieldValue dataView offset field littleEndian))"

definition parseDefinition ::
  "registry \<Rightarrow> byte list \<Rightarrow> nat \<Rightarrow> nat \<Rightarrow> bool \<Rightarrow> error + registry \<times> nat" where
  "parseDefinition localMessageTypes dataView offset localMessageType hasDevData =
     (case getUint8 dataView (offset + 1) of
        Inl e \<Rightarrow> Inl e
      | Inr architecture \<Rightarrow>
     (case getUint16 dataView (offset + 2) (architecture = 0) of
        Inl e \<Rightarrow> Inl e
      | Inr msgNum \<Rightarrow>
     (case getUint8 dataView (offset + 4) of
        Inl e \<Rightarrow> Inl e
      | Inr numFields \<Rightarrow>
     (case readFieldDefs dataView (offset + 5) numFields of
        Inl e \<Rightarrow> Inl e
      | Inr fs \<Rightarrow>
     (case (if hasDevData then
              (case getUint8 dataView (offset + 5 + 3 * numFields) of
                 Inl e \<Rightarrow> Inl e
               | Inr numDevFields \<Rightarrow> Inr (offset + 5 + 3 * numFields + 1 + 3 * numDevFields))
            else Inr (offset + 5 + 3 * numFields)) of
        Inl e \<Rightarrow> Inl e
      | Inr offset' \<Rightarrow>
          Inr (localMessageTypes(localMessageType \<mapsto>
                 \<lparr>globalMsgNum = msgNum, msg_fields = fs, isLittleEndian = (architecture = 0)\<rparr>),
               offset'))))))"

text \<open>
  \<open>parseMessage\<close> at \<open>offset\<close>: the record header, then a definition message (bit 0x40)
  or a data message. In \<open>parseDefinition\<close> the argument is the offset just after the
  record header. The schema table is a field of the parser object; it is passed in and
  returned. It is assigned only as the last statement of the definition branch, so a
  message that throws leaves it as it was.
\<close>

definition parseMessage ::
  "registry \<Rightarrow> byte list \<Rightarrow> nat \<Rightarrow> activity \<Rightarrow> error + registry \<times> nat \<times> activity" where
  "parseMessage localMessageTypes dataView offset act =
     (case getUint8 dataView offset of
        Inl e \<Rightarrow> Inl e
      | Inr recordHeader \<Rightarrow>
          (let isDefinition = (recordHeader AND 0x40 \<noteq> 0);
               localMessageType = recordHeader AND 0x0F;
               hasDevData = (recordHeader AND 0x20 \<noteq> 0)
           in if isDefinition then
                (case parseDefinition localMessageTypes dataView (offset + 1)
                        localMessageType hasDevData of
                   Inl e \<Rightarrow> Inl e
                 | Inr (reg', offset') \<Rightarrow> Inr (reg', offset', act))
              else
                (case localMessageTypes localMessageType of
                   None \<Rightarrow> Inr (localMessageTypes, offset + 1, act)
                 | Some msgDef \<Rightarrow>
                     (let (vals, offset') =
                            readFields dataView (isLittleEndian msgDef) (msg_fields msgDef)
                              (offset + 1) Map.empty
                      in Inr (localMessageTypes, offset',
                              processMessage (globalMsgNum msgDef) vals act)))))"

lemma parseDefinition_offset:
  "parseDefinition reg dv off slot dev = Inr (reg', off') \<Longrightarrow> off < off'"
  by (auto simp: parseDefinition_def split: sum.splits if_splits)

lemma readFields_offset:
  "readFields dv le fs off vals = (vals', off') \<Longrightarrow> off \<le> off'"
  by (induction fs arbitrary: off vals) fastforce+

lemma parseMessage_offset:
  "parseMessage reg dv off act = Inr (reg', off', act') \<Longrightarrow> off < off'"
  by (auto simp: parseMessage_def Let_def split: sum.splits if_splits option.splits prod.splits
      dest: parseDefinition_offset readFields_offset)

subsection \<open>parse\<close>

text \<open>
  The message loop \<open>while (offset < endOffset)\<close>. Every message consumes at least its
  record header, so the loop ends. The first component of the result is the schema table
  the parser object holds when \<open>parse\<close> returns or throws.
\<close>

function parseLoop ::
  "registry \<Rightarrow> byte list \<Rightarrow> nat \<Rightarrow> nat \<Rightarrow> activity \<Rightarrow> registry \<times> (error + activity)" where
  "parseLoop localMessageTypes dataView offset endOffset act =
     (if offset < endOffset then
        (case parseMessage localMessageTypes dataView offset act of
           Inl e \<Rightarrow> (localMessageTypes, Inl e)
         | Inr (reg', offset', act') \<Rightarrow> parseLoop reg' dataView offset' endOffset act')
      else (localMessageTypes, Inr act))"
  by pat_completeness auto
termination
proof (relation "measure (\<lambda>(reg, dv, off, endOff, act). endOff - off)")
  show "wf (measure (\<lambda>(reg, dv, off, endOff, act). endOff - off))"
    by simp
next
  fix reg :: registry and dv off endOff and act :: activity and x r p off' act'
  assume "off < endOff" "parseMessage reg dv off act = Inr x"
    "(r, p) = x" "(off', act') = p"
  then have "off < off'"
    using parseMessage_offset [of reg dv off act r off' act'] by simp
  with \<open>off < endOff\<close>
  show "((r, dv, off', endOff, act'), (reg, dv, off, endOff, act))
          \<in> measure (\<lambda>(reg, dv, off, endOff, act). endOff - off)"
    by simp
qed

declare parseLoop.simps [simp del]

text \<open>
  The string built by \<open>String.fromCharCode\<close> from the four signature bytes equals the
  literal \<open>.FIT\<close> when the four code units are those of the literal.
\<close>

definition signatureOK :: "nat \<Rightarrow> nat \<Rightarrow> nat \<Rightarrow> nat \<Rightarrow> bool" where
  "signatureOK c0 c1 c2 c3 = ([c0, c1, c2, c3] = map of_char ''.FIT'')"

definition parse :: "registry \<Rightarrow> byte list \<Rightarrow> registry \<times> (error + activity)" where
  "parse localMessageTypes buffer =
     (case getUint8 buffer 0 of
        Inl e \<Rightarrow> (localMessageTypes, Inl e)
      | Inr headerSize \<Rightarrow>
     (case getUint8 buffer 1 of
        Inl e \<Rightarrow> (localMessageTypes, Inl e)
      | Inr protocolVersion \<Rightarrow>
     (case getUint32 buffer 4 True of
        Inl e \<Rightarrow> (localMessageTypes, Inl e)
      | Inr dataSize \<Rightarrow>
     (case getUint8 buffer 8 of
        Inl e \<Rightarrow> (localMessageTypes, Inl e)
      | Inr c0 \<Rightarrow>
     (case getUint8 buffer 9 of
        Inl e \<Rightarrow> (localMessageTypes, Inl e)
      | Inr c1 \<Rightarrow>
     (case getUint8 buffer 10 of
        Inl e \<Rightarrow> (localMessageTypes, Inl e)
      | Inr c2 \<Rightarrow>
     (case getUint8 buffer 11 of
        Inl e \<Rightarrow> (localMessageTypes, Inl e)
      | Inr c3 \<Rightarrow>
          if \<not> signatureOK c0 c1 c2 c3 then (localMessageTypes, Inl FormatError)
          else parseLoop localMessageTypes buffer headerSize (headerSize + dataSize)
                 newActivity)))))))"

text \<open>A new parser object: the constructor sets the schema table to the empty object.\<close>

definition newFITParser :: registry where
  "newFITParser = Map.empty"

subsection \<open>Notions used to state the properties of the decoder\<close>

text \<open>
  The message that starts at \<open>offset\<close> fits in the buffer: its record header does, and,
  if it is a definition message, so do its architecture byte, message number, field count,
  its field definitions and (with developer data) the count of developer fields. The
  reserved byte, the developer field definitions and the field values of a data message
  are not asked to fit.
\<close>

definition messageFits :: "byte list \<Rightarrow> nat \<Rightarrow> bool" where
  "messageFits dataView offset =
     (offset < length dataView \<and>
      (unat (dataView ! offset) AND 0x40 = 0 \<or>
       (offset + 6 \<le> length dataView \<and>
        offset + 6 + 3 * unat (dataView ! (offset + 5)) +
          (if unat (dataView ! offset) AND 0x20 = 0 then 0 else 1) \<le> length dataView)))"

text \<open>
  The offsets at which the message loop reads a record header, in order, from \<open>offset\<close>
  up to \<open>endOffset\<close>; the list ends with the first message that throws.
\<close>

function messageOffsets :: "registry \<Rightarrow> byte list \<Rightarrow> nat \<Rightarrow> nat \<Rightarrow> nat list" where
  "messageOffsets localMessageTypes dataView offset endOffset =
     (if offset < endOffset then
        offset #
        (case parseMessage localMessageTypes dataView offset newActivity of
           Inl e \<Rightarrow> []
         | Inr (reg', offset', act') \<Rightarrow> messageOffsets reg' dataView offset' endOffset)
      else [])"
  by pat_completeness auto
termination
proof (relation "measure (\<lambda>(reg, dv, off, endOff). endOff - off)")
  show "wf (measure (\<lambda>(reg, dv, off, endOff). endOff - off))"
    by simp
next
  fix reg :: registry and dv off endOff x r p off' and act' :: activity
  assume "off < endOff" "parseMessage reg dv off newActivity = Inr x"
    "(r, p) = x" "(off', act') = p"
  then have "off < off'"
    using parseMessage_offset [of reg dv off newActivity r off' act'] by simp
  with \<open>off < endOff\<close>
  show "((r, dv, off', endOff), (reg, dv, off, endOff))
          \<in> measure (\<lambda>(reg, dv, off, endOff). endOff - off)"
    by simp
qed

declare messageOffsets.simps [simp del]

text \<open>The same for a whole file: from the header size to header size plus payload length.\<close>

definition messageOffsetsOf :: "registry \<Rightarrow> byte list \<Rightarrow> nat list" where
  "messageOffsetsOf localMessageTypes buffer =
     (case getUint32 buffer 4 True of
        Inl e \<Rightarrow> []
      | Inr dataSize \<Rightarrow>
          messageOffsets localMessageTypes buffer (unat (buffer ! 0))
            (unat (buffer ! 0) + dataSize))"

text \<open>The message at \<open>offset\<close> is a definition message for the local slot \<open>slot\<close>.\<close>

definition definesSlot :: "byte list \<Rightarrow> nat \<Rightarrow> nat \<Rightarrow> bool" where
  "definesSlot dataView offset slot =
     (offset < length dataView \<and> unat (dataView ! offset) AND 0x40 \<noteq> 0
      \<and> unat (dataView ! offset) AND 0x0F = slot)"

section \<open>The TSS calculator (js/app.js, class TSSCalculator)\<close>

subsection \<open>JavaScript values\<close>

text \<open>
  The calculator reads numeric properties that may be absent. A property value is
  \<open>undefined\<close>, \<open>null\<close>, \<open>NaN\<close> or a number. Numbers are exact reals: the rounding
  of IEEE doubles and the infinities are not part of this model. Every quotient of the
  calculator has a divisor that a guard or the constructor makes non-zero, so no quotient
  by zero is taken.
\<close>

datatype jsval = JUndefined | JNull | JNaN | JNum real

text \<open>The values that count as true in a condition: the non-zero numbers.\<close>

definition truthy :: "jsval \<Rightarrow> bool" where
  "truthy v = (case v of JNum r \<Rightarrow> r \<noteq> 0 | _ \<Rightarrow> False)"

text \<open>Conversion to a number, as arithmetic applies it; \<open>None\<close> stands for \<open>NaN\<close>.\<close>

fun toNumber :: "jsval \<Rightarrow> real option" where
  "toNumber JUndefined = None"
| "toNumber JNull = Some 0"
| "toNumber JNaN = None"
| "toNumber (JNum r) = Some r"

text \<open>The number held by a value that a guard has found truthy.\<close>

fun num :: "jsval \<Rightarrow> real" where
  "num (JNum r) = r"
| "num _ = 0"

text \<open>\<open>a || b\<close>.\<close>

definition js_or :: "jsval \<Rightarrow> jsval \<Rightarrow> jsval" where
  "js_or a b = (if truthy a then a else b)"

text \<open>\<open>Math.round\<close> rounds to the nearest integer, a half towards plus infinity.\<close>

definition Math_round :: "real \<Rightarrow> real" where
  "Math_round x = of_int \<lfloor>x + 1 / 2\<rfloor>"

text \<open>\<open>x % y\<close> on numbers: the remainder has the sign of the dividend.\<close>

definition js_rem :: "real \<Rightarrow> real \<Rightarrow> real" where
  "js_rem x y = x - y * of_int (if 0 \<le> x / y then \<lfloor>x / y\<rfloor> else \<lceil>x / y\<rceil>)"

text \<open>\<open>toString\<close> of an integral number and \<open>padStart\<close>.\<close>

fun showNat :: "nat \<Rightarrow> string" where
  "showNat n = (if n < 10 then [''0123456789'' ! n]
                else showNat (n div 10) @ [''0123456789'' ! (n mod 10)])"

declare showNat.simps [simp del]

definition showInt :: "int \<Rightarrow> string" where
  "showInt i = (if i < 0 then CHR ''-'' # showNat (nat (- i)) else showNat (nat i))"

definition padStart :: "nat \<Rightarrow> char \<Rightarrow> string \<Rightarrow> string" where
  "padStart n c s = replicate (n - length s) c @ s"

subsection \<open>Thresholds\<close>

record settings =
  s_ftp :: jsval
  s_runThreshold :: jsval
  s_swimThreshold :: jsval
  s_lthr :: jsval

record TSSCalculator =
  ftp :: real
  runThreshold :: real
  swimThreshold :: real
  lthr :: real

text \<open>The constructor: \<open>settings.ftp || 300\<close> and so on.\<close>

definition newTSSCalculator :: "settings \<Rightarrow> TSSCalculator" where
  "newTSSCalculator st =
     \<lparr>ftp = num (js_or (s_ftp st) (JNum 300)),
      runThreshold = num (js_or (s_runThreshold st) (JNum 256)),
      swimThreshold = num (js_or (s_swimThreshold st) (JNum 100)),
      lthr = num (js_or (s_lthr st) (JNum 155))\<rparr>"

definition updateSettings :: "TSSCalculator \<Rightarrow> settings \<Rightarrow> TSSCalculator" where
  "updateSettings c st =
     \<lparr>ftp = (if truthy (s_ftp st) then num (s_ftp st) else ftp c),
      runThreshold = (if truthy (s_runThreshold st) then num (s_runThreshold st)
                      else runThreshold c),
      swimThreshold = (if truthy (s_swimThreshold st) then num (s_swimThreshold st)
                       else swimThreshold c),
      lthr = (if truthy (s_lthr st) then num (s_lthr st) else lthr c)\<rparr>"

subsection \<open>The activity as the calculator reads it, and the result\<close>

text \<open>
  The calculator reads six properties of its argument (the object \<open>recalculate\<close> builds
  has exactly these).
\<close>

record tssActivity =
  sport :: string
  totalTime :: jsval
  totalDistance :: jsval
  normalizedPower :: jsval
  avgPower :: jsval
  avgHeartRate :: jsval

datatype tssType = TSS | rTSS | sTSS | hrTSS

datatype tssMethod = M_power | M_pace | M_heart_rate | M_duration_estimate

text \<open>
  The result object. \<open>tss\<close>, \<open>type\<close>, \<open>IF\<close> and \<open>tss_method\<close> (the property
  \<open>method\<close>) are set by every branch;
  \<open>np\<close>, \<open>pace\<close>, \<open>paceSeconds\<close> and \<open>avgHR\<close> only by some, \<open>None\<close> where the
  branch does not set the property. The constructors of \<open>tssMethod\<close> stand for the strings
  \<open>power\<close>, \<open>pace\<close>, \<open>heart_rate\<close> and \<open>duration_estimate\<close>.
\<close>

record TSSResult =
  tss :: jsval
  type :: tssType
  IF :: jsval
  tss_method :: tssMethod
  np :: "real option"
  pace :: "string option"
  paceSeconds :: "real option"
  avgHR :: "real option"

subsection \<open>The formulas\<close>

definition formatPace :: "real \<Rightarrow> string" where
  "formatPace secondsPerKm =
     (let minutes = \<lfloor>secondsPerKm / 60\<rfloor>;
          seconds = \<lfloor>js_rem secondsPerKm 60 + 1 / 2\<rfloor>
      in showInt minutes @ '':'' @ padStart 2 CHR ''0'' (showInt seconds))"

definition formatSwimPace :: "real \<Rightarrow> string" where
  "formatSwimPace secondsPer100m =
     (let minutes = \<lfloor>secondsPer100m / 60\<rfloor>;
          seconds = \<lfloor>js_rem secondsPer100m 60 + 1 / 2\<rfloor>
      in showInt minutes @ '':'' @ padStart 2 CHR ''0'' (showInt seconds))"

text \<open>
  The heart-rate branch and, inside it, the ultimate fallback. In the fallback
  \<open>Math.round(duration / 60)\<close> is applied to the value that the guard found falsy (or to
  a usable duration when only the heart rate is missing).
\<close>

definition calculateHRBasedTSS :: "TSSCalculator \<Rightarrow> tssActivity \<Rightarrow> TSSResult" where
  "calculateHRBasedTSS c activity =
     (let duration = totalTime activity; avgHR = avgHeartRate activity
      in if \<not> truthy duration \<or> \<not> truthy avgHR then
           \<lparr>tss = (case toNumber duration of
                      None \<Rightarrow> JNaN
                    | Some d \<Rightarrow> JNum (Math_round (d / 60))),
            type = TSS, IF = JNum (7 / 10), tss_method = M_duration_estimate,
            np = None, pace = None, paceSeconds = None, avgHR = None\<rparr>
         else
           (let IF = num avgHR / lthr c;
                durationHours = num duration / 3600;
                hrTss = durationHours * IF ^ 2 * 100
            in \<lparr>tss = JNum (Math_round hrTss), type = hrTSS,
                IF = JNum (Math_round (IF * 100) / 100), tss_method = M_heart_rate,
                np = None, pace = None, paceSeconds = None,
                avgHR = Some (num avgHR)\<rparr>))"

definition calculateCyclingTSS :: "TSSCalculator \<Rightarrow> tssActivity \<Rightarrow> TSSResult" where
  "calculateCyclingTSS c activity =
     (let duration = totalTime activity;
          np = js_or (normalizedPower activity) (avgPower activity)
      in if \<not> truthy np \<or> \<not> truthy duration then calculateHRBasedTSS c activity
         else
           (let IF = num np / ftp c;
                tss = (num duration * num np * IF) / (ftp c * 3600) * 100
            in \<lparr>tss = JNum (Math_round tss), type = TSS,
                IF = JNum (Math_round (IF * 100) / 100), tss_method = M_power,
                np = Some (Math_round (num np)), pace = None, paceSeconds = None,
                avgHR = None\<rparr>))"

definition calculateRunningTSS :: "TSSCalculator \<Rightarrow> tssActivity \<Rightarrow> TSSResult" where
  "calculateRunningTSS c activity =
     (let duration = totalTime activity; distance = totalDistance activity
      in if \<not> truthy duration \<or> \<not> truthy distance \<or> num distance < 100
         then calculateHRBasedTSS c activity
         else
           (let paceSecsPerKm = num duration / (num distance / 1000);
                IF = runThreshold c / paceSecsPerKm;
                durationHours = num duration / 3600;
                rtss = durationHours * IF ^ 2 * 100
            in \<lparr>tss = JNum (Math_round rtss), type = rTSS,
                IF = JNum (Math_round (IF * 100) / 100), tss_method = M_pace,
                np = None, pace = Some (formatPace paceSecsPerKm),
                paceSeconds = Some paceSecsPerKm, avgHR = None\<rparr>))"

definition calculateSwimmingTSS :: "TSSCalculator \<Rightarrow> tssActivity \<Rightarrow> TSSResult" where
  "calculateSwimmingTSS c activity =
     (let duration = totalTime activity; distance = totalDistance activity
      in if \<not> truthy duration \<or> \<not> truthy distance \<or> num distance < 25
         then calculateHRBasedTSS c activity
         else
           (let pacePer100m = num duration / (num distance / 100);
                IF = swimThreshold c / pacePer100m;
                durationHours = num duration / 3600;
                stss = IF ^ 3 * durationHours * 100
            in \<lparr>tss = JNum (Math_round stss), type = sTSS,
                IF = JNum (Math_round (IF * 100) / 100), tss_method = M_pace,
                np = None, pace = Some (formatSwimPace pacePer100m),
                paceSeconds = Some pacePer100m, avgHR = None\<rparr>))"

text \<open>The dispatch on the sport (the method \<open>calculate\<close> of the calculator).\<close>

definition calculateTSS :: "TSSCalculator \<Rightarrow> tssActivity \<Rightarrow> TSSResult" where
  "calculateTSS c activity =
     (if sport activity = ''cycling'' then calculateCyclingTSS c activity
      else if sport activity = ''running'' then calculateRunningTSS c activity
      else if sport activity = ''swimming'' then calculateSwimmingTSS c activity
      else calculateHRBasedTSS c activity)"

subsection \<open>parsePace\<close>

text \<open>
  \<open>paceString.split(':')\<close>: the pieces between the separators, one more than there are
  separators. A string is the list of its code units, here those below 256.
\<close>

fun js_split :: "char \<Rightarrow> string \<Rightarrow> string list" where
  "js_split sep [] = [[]]"
| "js_split sep (c # cs) =
     (if c = sep then [] # js_split sep cs
      else (case js_split sep cs of
              [] \<Rightarrow> [[c]]
            | p # ps \<Rightarrow> (c # p) # ps))"

text \<open>
  The numbers that \<open>parseInt\<close> and the arithmetic of \<open>parsePace\<close> can produce: \<open>NaN\<close>, the
  two infinities, and the doubles that are integers (minus zero is not told from zero).
\<close>

datatype jsnumber = NaN | PosInf | NegInf | Finite int

text \<open>
  The double nearest to a natural number, ties to the even significand: below \<open>2^53\<close> every
  integer is a double; above, the 53 leading bits are kept and the rest is rounded.
\<close>

fun bitLength :: "nat \<Rightarrow> nat" where
  "bitLength n = (if n = 0 then 0 else Suc (bitLength (n div 2)))"

declare bitLength.simps [simp del]

definition roundToDouble :: "nat \<Rightarrow> nat" where
  "roundToDouble n =
     (if n < 2 ^ 53 then n
      else (let e = bitLength n - 53;
                q = n div 2 ^ e;
                r = n mod 2 ^ e;
                q' = (if 2 ^ e < 2 * r \<or> (2 * r = 2 ^ e \<and> odd q) then q + 1 else q)
            in q' * 2 ^ e))"

text \<open>
  The Number value of an integer: the nearest double, and an infinity when the rounded
  magnitude leaves the range of the doubles, that is from \<open>2^1024\<close> on.
\<close>

definition toDouble :: "int \<Rightarrow> jsnumber" where
  "toDouble i =
     (let v = roundToDouble (nat \<bar>i\<bar>)
      in if 2 ^ 1024 \<le> v then (if i < 0 then NegInf else PosInf)
         else Finite (if i < 0 then - int v else int v))"

text \<open>
  \<open>a * b\<close> and \<open>a + b\<close> on these numbers: \<open>NaN\<close> is absorbing, an infinity times zero and
  the sum of the two opposite infinities are \<open>NaN\<close>, and the exact result of two finite
  operands is rounded to the nearest double.
\<close>

fun number_mul :: "jsnumber \<Rightarrow> jsnumber \<Rightarrow> jsnumber" where
  "number_mul NaN b = NaN"
| "number_mul a NaN = NaN"
| "number_mul (Finite a) (Finite b) = toDouble (a * b)"
| "number_mul (Finite a) PosInf = (if a = 0 then NaN else if 0 < a then PosInf else NegInf)"
| "number_mul (Finite a) NegInf = (if a = 0 then NaN else if 0 < a then NegInf else PosInf)"
| "number_mul PosInf (Finite b) = (if b = 0 then NaN else if 0 < b then PosInf else NegInf)"
| "number_mul NegInf (Finite b) = (if b = 0 then NaN else if 0 < b then NegInf else PosInf)"
| "number_mul PosInf PosInf = PosInf"
| "number_mul PosInf NegInf = NegInf"
| "number_mul NegInf PosInf = NegInf"
| "number_mul NegInf NegInf = PosInf"

fun number_add :: "jsnumber \<Rightarrow> jsnumber \<Rightarrow> jsnumber" where
  "number_add NaN b = NaN"
| "number_add a NaN = NaN"
| "number_add (Finite a) (Finite b) = toDouble (a + b)"
| "number_add (Finite a) PosInf = PosInf"
| "number_add (Finite a) NegInf = NegInf"
| "number_add PosInf (Finite b) = PosInf"
| "number_add NegInf (Finite b) = NegInf"
| "number_add PosInf PosInf = PosInf"
| "number_add PosInf NegInf = NaN"
| "number_add NegInf PosInf = NaN"
| "number_add NegInf NegInf = NegInf"

text \<open>
  \<open>parseInt(s)\<close> without a radix: leading white space is skipped, then an optional sign,
  then the prefix \<open>0x\<close> or \<open>0X\<close> selects radix 16, and the longest run of digits of the
  radix is read; whatever follows is ignored. Without a single digit the result is \<open>NaN\<close>,
  otherwise it is the Number value of the signed integer that the digits denote (the exact
  integer, rounded once; for a decimal run of more than 20 digits an engine is allowed to
  round from the first 20). White space is given for the code units below 256.
\<close>

definition isWhiteSpace :: "char \<Rightarrow> bool" where
  "isWhiteSpace c = ((of_char c :: nat) \<in> {9, 10, 11, 12, 13, 32, 160})"

definition digitVal :: "char \<Rightarrow> nat option" where
  "digitVal c =
     (let n = (of_char c :: nat)
      in if 48 \<le> n \<and> n \<le> 57 then Some (n - 48)
         else if 97 \<le> n \<and> n \<le> 122 then Some (n - 87)
         else if 65 \<le> n \<and> n \<le> 90 then Some (n - 55)
         else None)"

definition isDigit :: "nat \<Rightarrow> char \<Rightarrow> bool" where
  "isDigit radix c = (case digitVal c of None \<Rightarrow> False | Some d \<Rightarrow> d < radix)"

definition digitsValue :: "nat \<Rightarrow> string \<Rightarrow> nat" where
  "digitsValue radix ds =
     foldl (\<lambda>acc c. acc * radix + (case digitVal c of None \<Rightarrow> 0 | Some d \<Rightarrow> d)) 0 ds"

definition parseInt :: "string \<Rightarrow> jsnumber" where
  "parseInt s =
     (let s1 = dropWhile isWhiteSpace s;
          (sign, s2) = (case s1 of
                          [] \<Rightarrow> (1 :: int, s1)
                        | c # r \<Rightarrow> if c = CHR ''-'' then (- 1, r)
                                   else if c = CHR ''+'' then (1, r) else (1, s1));
          (radix, s3) = (case s2 of
                           c # x # r \<Rightarrow> if c = CHR ''0'' \<and> (x = CHR ''x'' \<or> x = CHR ''X'')
                                        then (16 :: nat, r) else (10, s2)
                         | _ \<Rightarrow> (10, s2));
          ds = takeWhile (isDigit radix) s3
      in if ds = [] then NaN else toDouble (sign * int (digitsValue radix ds)))"

text \<open>
  \<open>parsePace(paceString)\<close> on a string; \<open>None\<close> is the \<open>null\<close> it returns when the split does
  not give two parts.
\<close>

definition parsePace :: "string \<Rightarrow> jsnumber option" where
  "parsePace paceString =
     (let parts = js_split CHR '':'' paceString
      in if length parts \<noteq> 2 then None
         else Some (number_add (number_mul (parseInt (parts ! 0)) (Finite 60))
                      (parseInt (parts ! 1))))"

subsection \<open>Notions used to state the properties of the calculator\<close>

text \<open>A value that is an integral number; a value that is a number of whole hundredths.\<close>

definition isInteger :: "jsval \<Rightarrow> bool" where
  "isInteger v = (case v of JNum r \<Rightarrow> r \<in> \<int> | _ \<Rightarrow> False)"

definition isHundredths :: "jsval \<Rightarrow> bool" where
  "isHundredths v = (case v of JNum r \<Rightarrow> r * 100 \<in> \<int> | _ \<Rightarrow> False)"


text \<open>The number that a string of digits denotes in positional notation.\<close>

definition positionalValue :: "nat \<Rightarrow> string \<Rightarrow> nat" where
  "positionalValue radix ds =
     (\<Sum>i<length ds. (case digitVal (ds ! i) of None \<Rightarrow> 0 | Some d \<Rightarrow> d)
                        * radix ^ (length ds - Suc i))"

section \<open>The PMC engine (class PMCEngine)\<close>

text \<open>
  A calendar day is represented by its day number (days since 1970-01-01), which stands for
  the string \<open>YYYY-MM-DD\<close>; the lexicographic order of the strings is the order of the
  days. A \<open>Date\<close> object is its time value, in milliseconds since the epoch. Stress
  scores and loads are exact reals.
\<close>

type_synonym day = int

text \<open>The entry object \<open>{date, tss, ctl, atl, tsb}\<close>.\<close>

record pmcEntry =
  entry_date :: day
  entry_tss :: real
  entry_ctl :: real
  entry_atl :: real
  entry_tsb :: real

text \<open>
  The two \<open>Map\<close> objects of the engine, as association lists in insertion order with
  distinct keys: the ledger \<open>dailyTSS\<close> and the derived table \<open>pmcData\<close>.
\<close>

record PMCEngine =
  dailyTSS :: "(day \<times> real) list"
  pmcData :: "(day \<times> pmcEntry) list"

definition ctlDecay :: real where
  "ctlDecay = exp (- 1 / 42)"

definition atlDecay :: real where
  "atlDecay = exp (- 1 / 7)"

definition newPMCEngine :: PMCEngine where
  "newPMCEngine = \<lparr>dailyTSS = [], pmcData = []\<rparr>"

text \<open>\<open>Map.prototype.set\<close>: an existing key keeps its place, a new key goes last.\<close>

fun Map_set :: "'k \<Rightarrow> 'v \<Rightarrow> ('k \<times> 'v) list \<Rightarrow> ('k \<times> 'v) list" where
  "Map_set k v [] = [(k, v)]"
| "Map_set k v ((k', v') # rest) =
     (if k' = k then (k, v) # rest else (k', v') # Map_set k v rest)"

text \<open>\<open>this.dailyTSS.get(dateStr) || 0\<close>.\<close>

definition getTSS :: "(day \<times> real) list \<Rightarrow> day \<Rightarrow> real" where
  "getTSS ledger d = (case map_of ledger d of None \<Rightarrow> 0 | Some v \<Rightarrow> v)"

definition addTSS :: "PMCEngine \<Rightarrow> day \<Rightarrow> real \<Rightarrow> PMCEngine" where
  "addTSS eng d v = eng\<lparr>dailyTSS := Map_set d (getTSS (dailyTSS eng) d + v) (dailyTSS eng)\<rparr>"

definition setDailyTSS :: "PMCEngine \<Rightarrow> day \<Rightarrow> real \<Rightarrow> PMCEngine" where
  "setDailyTSS eng d v = eng\<lparr>dailyTSS := Map_set d v (dailyTSS eng)\<rparr>"

definition clear :: "PMCEngine \<Rightarrow> PMCEngine" where
  "clear eng = eng\<lparr>dailyTSS := [], pmcData := []\<rparr>"

subsection \<open>Dates\<close>

definition msPerDay :: int where
  "msPerDay = 86400000"

definition msPerHour :: int where
  "msPerHour = 3600000"

text \<open>
  \<open>new Date(s)\<close> for a day string is midnight UTC of that day, and \<open>formatDate\<close> of a
  \<open>Date\<close> is the day of its time value in UTC (the date part of \<open>toISOString()\<close>).
\<close>

definition newDate :: "day \<Rightarrow> int" where
  "newDate d = d * msPerDay"

definition formatDate :: "int \<Rightarrow> day" where
  "formatDate t = t div msPerDay"

text \<open>
  \<open>getDate\<close> and \<open>setDate\<close> work in the local time of the machine, which the program
  does not choose: the time zone is a parameter. A zone is a standard offset from UTC and
  the instants at which daylight saving time, one hour ahead, is in force. \<open>localTime\<close>
  and \<open>utcTime\<close> are the conversions LocalTime and UTC of the language definition: a
  local time that occurs twice is taken at its first occurrence, one that is skipped is
  taken with the offset in force before the clocks change.
\<close>

record timeZone =
  stdOffset :: int
  isDST :: "int \<Rightarrow> bool"

definition localTime :: "timeZone \<Rightarrow> int \<Rightarrow> int" where
  "localTime z t = t + stdOffset z + (if isDST z t then msPerHour else 0)"

definition utcTime :: "timeZone \<Rightarrow> int \<Rightarrow> int" where
  "utcTime z local =
     (if isDST z (local - stdOffset z - msPerHour) then local - stdOffset z - msPerHour
      else local - stdOffset z)"

text \<open>
  \<open>current.setDate(current.getDate() + 1)\<close>: the same local time of day on the next
  local day.
\<close>

definition setDateNext :: "timeZone \<Rightarrow> int \<Rightarrow> int" where
  "setDateNext z t = utcTime z (localTime z t + msPerDay)"

lemma setDateNext_later: "t < setDateNext z t"
  by (simp add: setDateNext_def utcTime_def localTime_def msPerDay_def msPerHour_def)

text \<open>The loop of \<open>generateDateRange\<close>; a step moves \<open>current\<close> on by 23 to 25 hours.\<close>

function dateLoop :: "timeZone \<Rightarrow> int \<Rightarrow> int \<Rightarrow> day list" where
  "dateLoop z current end =
     (if current \<le> end then formatDate current # dateLoop z (setDateNext z current) end
      else [])"
  by pat_completeness auto
termination
proof (relation "measure (\<lambda>(z, current, end). nat (end + 1 - current))")
  show "wf (measure (\<lambda>(z, current, end). nat (end + 1 - current)))"
    by simp
next
  fix z :: timeZone and current final :: int
  assume "current \<le> final"
  then show "((z, setDateNext z current, final), (z, current, final))
          \<in> measure (\<lambda>(z, current, end). nat (end + 1 - current))"
    using setDateNext_later [of current z] by simp
qed

declare dateLoop.simps [simp del]

definition generateDateRange :: "timeZone \<Rightarrow> day \<Rightarrow> day \<Rightarrow> day list" where
  "generateDateRange z startDate endDate = dateLoop z (newDate startDate) (newDate endDate)"

text \<open>Two zones: UTC, and Central European Time with the summer time of 2024.\<close>

definition utc :: timeZone where
  "utc = \<lparr>stdOffset = 0, isDST = (\<lambda>t. False)\<rparr>"

definition europeRome2024 :: timeZone where
  "europeRome2024 =
     \<lparr>stdOffset = 3600000, isDST = (\<lambda>t. 1711846800000 \<le> t \<and> t < 1729990800000)\<rparr>"

subsection \<open>calculate\<close>

text \<open>\<open>Math.round(x * 10) / 10\<close>.\<close>

definition round1 :: "real \<Rightarrow> real" where
  "round1 x = of_int \<lfloor>x * 10 + 1 / 2\<rfloor> / 10"

text \<open>
  The loop of \<open>calculate\<close> over the days of the range, with the accumulators \<open>ctl\<close> and
  \<open>atl\<close>, the table \<open>pmcData\<close> and the array \<open>results\<close> as they stand before the day.
\<close>

fun calculateLoop ::
  "(day \<times> real) list \<Rightarrow> day list \<Rightarrow> real \<Rightarrow> real \<Rightarrow> (day \<times> pmcEntry) list \<Rightarrow> pmcEntry list
     \<Rightarrow> pmcEntry list \<times> (day \<times> pmcEntry) list" where
  "calculateLoop ledger [] ctl atl pmc results = (results, pmc)"
| "calculateLoop ledger (dateStr # rest) ctl atl pmc results =
     (let tss = getTSS ledger dateStr;
          tsb = ctl - atl;
          ctl' = ctl * ctlDecay + tss * (1 - ctlDecay);
          atl' = atl * atlDecay + tss * (1 - atlDecay);
          pmcEntry = \<lparr>entry_date = dateStr, entry_tss = tss, entry_ctl = round1 ctl',
                      entry_atl = round1 atl', entry_tsb = round1 tsb\<rparr>
      in calculateLoop ledger rest ctl' atl' (Map_set dateStr pmcEntry pmc)
           (results @ [pmcEntry]))"

text \<open>
  \<open>calculate(startDate, endDate)\<close> on a machine whose local zone is \<open>z\<close>. An absent
  argument is \<open>None\<close>; \<open>today\<close> is the day \<open>formatDate(new Date())\<close> gives. The result is
  the returned array and the engine with its updated table.
\<close>

definition calculate ::
  "PMCEngine \<Rightarrow> timeZone \<Rightarrow> day option \<Rightarrow> day option \<Rightarrow> day
     \<Rightarrow> pmcEntry list \<times> PMCEngine" where
  "calculate eng z startDate endDate today =
     (let dates = sort (map fst (dailyTSS eng))
      in if length dates = 0 then ([], eng)
         else
           (let firstDate = (case startDate of Some d \<Rightarrow> d | None \<Rightarrow> dates ! 0);
                lastDate = (case endDate of Some d \<Rightarrow> d | None \<Rightarrow> today);
                allDates = generateDateRange z firstDate lastDate;
                (results, pmc) = calculateLoop (dailyTSS eng) allDates 0 0 (pmcData eng) []
            in (results, eng\<lparr>pmcData := pmc\<rparr>)))"

subsection \<open>Notions used to state the properties of the engine\<close>

text \<open>
  One update of the two accumulators by a day's score (the two assignments to \<open>ctl\<close> and
  \<open>atl\<close> in the loop), written as a function of the pair \<open>(ctl, atl)\<close>.
\<close>

definition pmcUpdate :: "real \<Rightarrow> real \<times> real \<Rightarrow> real \<times> real" where
  "pmcUpdate v acc =
     (fst acc * ctlDecay + v * (1 - ctlDecay), snd acc * atlDecay + v * (1 - atlDecay))"


text \<open>The days \<open>calculate\<close> walks over for given arguments (its variable \<open>allDates\<close>).\<close>

definition requestedDays ::
  "PMCEngine \<Rightarrow> timeZone \<Rightarrow> day option \<Rightarrow> day option \<Rightarrow> day \<Rightarrow> day list" where
  "requestedDays eng z startDate endDate today =
     generateDateRange z
       (case startDate of Some d \<Rightarrow> d | None \<Rightarrow> sort (map fst (dailyTSS eng)) ! 0)
       (case endDate of Some d \<Rightarrow> d | None \<Rightarrow> today)"

section \<open>Properties of the decoder\<close>

subsection \<open>Which errors the decoder raises\<close>

lemma getUint8_error: "getUint8 dv off = Inl e \<Longrightarrow> e = RangeError"
  by (simp add: getUint8_def split: if_splits)

lemma getUint16_error: "getUint16 dv off le = Inl e \<Longrightarrow> e = RangeError"
  by (simp add: getUint16_def Let_def split: if_splits)

lemma getUint32_error: "getUint32 dv off le = Inl e \<Longrightarrow> e = RangeError"
  by (simp add: getUint32_def Let_def split: if_splits)

lemma readFieldDefs_error: "readFieldDefs dv off n = Inl e \<Longrightarrow> e = RangeError"
  by (induction n arbitrary: off) (auto split: sum.splits dest: getUint8_error)

lemma parseDefinition_error: "parseDefinition reg dv off slot dev = Inl e \<Longrightarrow> e = RangeError"
  by (auto simp: parseDefinition_def split: sum.splits if_splits
      dest: getUint8_error getUint16_error readFieldDefs_error)

lemma parseMessage_error: "parseMessage reg dv off act = Inl e \<Longrightarrow> e = RangeError"
  by (auto simp: parseMessage_def Let_def split: sum.splits if_splits option.splits prod.splits
      dest: getUint8_error parseDefinition_error)

lemma parseLoop_error: "snd (parseLoop reg dv off endOff act) = Inl e \<Longrightarrow> e = RangeError"
proof (induction reg dv off endOff act rule: parseLoop.induct)
  case (1 reg dv off endOff act)
  show ?case
  proof (cases "off < endOff")
    case False
    with "1.prems" show ?thesis by (simp add: parseLoop.simps)
  next
    case True
    show ?thesis
    proof (cases "parseMessage reg dv off act")
      case (Inl e')
      with True "1.prems" have "e = e'" by (simp add: parseLoop.simps)
      with Inl show ?thesis by (simp add: parseMessage_error)
    next
      case (Inr x)
      obtain reg' off' act' where x: "x = (reg', off', act')" by (cases x) auto
      from True Inr x "1.prems" have "snd (parseLoop reg' dv off' endOff act') = Inl e"
        by (simp add: parseLoop.simps [of reg dv off])
      with "1.IH" [OF True Inr] x show ?thesis by simp
    qed
  qed
qed

lemma readBytes_Inr:
  "(\<exists>bs. readBytes dv off n = Inr bs) \<longleftrightarrow> n = 0 \<or> off + n \<le> length dv"
proof (induction n arbitrary: off)
  case 0
  show ?case by simp
next
  case (Suc n)
  show ?case
  proof (cases "off < length dv")
    case False
    then show ?thesis by (simp add: getUint8_def)
  next
    case True
    have "(\<exists>bs. readBytes dv off (Suc n) = Inr bs) \<longleftrightarrow> (\<exists>bs. readBytes dv (Suc off) n = Inr bs)"
      using True by (auto simp: getUint8_def split: sum.splits)
    also have "\<dots> \<longleftrightarrow> n = 0 \<or> Suc off + n \<le> length dv"
      by (rule Suc.IH)
    also have "\<dots> \<longleftrightarrow> Suc n = 0 \<or> off + Suc n \<le> length dv"
      using True by auto
    finally show ?thesis .
  qed
qed

lemma readFieldValue_Null:
  "readFieldValue dv off f le = Null \<longleftrightarrow> 0 < field_size f \<and> length dv < off + field_size f"
proof -
  consider "field_size f = 1" | "field_size f = 2" | "field_size f = 4"
    | "field_size f \<noteq> 1" "field_size f \<noteq> 2" "field_size f \<noteq> 4"
    by blast
  then show ?thesis
  proof cases
    case 4
    have "readFieldValue dv off f le = Null \<longleftrightarrow> \<not> (\<exists>bs. readBytes dv off (field_size f) = Inr bs)"
      using 4 by (cases "readBytes dv off (field_size f)")
        (auto simp: readFieldValue_def readFieldValue_try_def)
    then show ?thesis
      by (auto simp: readBytes_Inr)
  qed (auto simp: readFieldValue_def readFieldValue_try_def getUint8_def getUint16_def
        getUint32_def getInt32_def Let_def)
qed

lemma parse_FormatError:
  "snd (parse reg buffer) = Inl FormatError \<longleftrightarrow>
     12 \<le> length buffer \<and> map unat (take 4 (drop 8 buffer)) \<noteq> map of_char ''.FIT''"
proof (cases "12 \<le> length buffer")
  case False
  then show ?thesis
    by (auto simp: parse_def getUint8_def getUint32_def split: sum.splits)
next
  case True
  define ok where "ok = signatureOK (unat (buffer ! 8)) (unat (buffer ! 9))
    (unat (buffer ! 10)) (unat (buffer ! 11))"
  from True have "take 4 (drop 8 buffer) = [buffer ! 8, buffer ! 9, buffer ! 10, buffer ! 11]"
    by (auto intro!: nth_equalityI simp: nth_Cons split: nat.splits)
  then have sig: "ok \<longleftrightarrow> map unat (take 4 (drop 8 buffer)) = map of_char ''.FIT''"
    by (simp add: ok_def signatureOK_def)
  from True have ne: "buffer \<noteq> []" by auto
  from True ne obtain hs ds where p: "parse reg buffer =
      (if \<not> ok then (reg, Inl FormatError) else parseLoop reg buffer hs (hs + ds) newActivity)"
    by (simp add: parse_def getUint8_def getUint32_def ok_def)
  show ?thesis
  proof (cases ok)
    case False
    with p sig True show ?thesis by simp
  next
    case ok: True
    with p have "snd (parse reg buffer) \<noteq> Inl FormatError"
      using parseLoop_error [of reg buffer hs "hs + ds" newActivity FormatError] by auto
    with ok sig show ?thesis by simp
  qed
qed

lemma parse_short: "length buffer < 12 \<Longrightarrow> snd (parse reg buffer) = Inl RangeError"
  by (auto simp: parse_def getUint8_def getUint32_def split: sum.splits)

lemma data_total:
  "off < length dv \<Longrightarrow> unat (dv ! off) AND 0x40 = 0 \<Longrightarrow> \<exists>r. parseMessage reg dv off act = Inr r"
  by (auto simp: parseMessage_def getUint8_def Let_def split: option.splits prod.splits)

lemma readFieldDefs_Inr:
  "(\<exists>fs. readFieldDefs dv off n = Inr fs) \<longleftrightarrow> n = 0 \<or> off + 3 * n \<le> length dv"
proof (induction n arbitrary: off)
  case 0
  show ?case by simp
next
  case (Suc n)
  show ?case
  proof (cases "off + 3 \<le> length dv")
    case False
    then show ?thesis by (auto simp: getUint8_def split: sum.splits)
  next
    case True
    have "(\<exists>fs. readFieldDefs dv off (Suc n) = Inr fs)
            \<longleftrightarrow> (\<exists>fs. readFieldDefs dv (off + 3) n = Inr fs)"
      using True by (auto simp: getUint8_def split: sum.splits)
    also have "\<dots> \<longleftrightarrow> n = 0 \<or> off + 3 + 3 * n \<le> length dv"
      by (rule Suc.IH)
    also have "\<dots> \<longleftrightarrow> Suc n = 0 \<or> off + 3 * Suc n \<le> length dv"
      using True by auto
    finally show ?thesis .
  qed
qed

lemma getUint8_Inr: "off < length dv \<Longrightarrow> getUint8 dv off = Inr (unat (dv ! off))"
  by (simp add: getUint8_def)

lemma getUint16_Inr: "off + 2 \<le> length dv \<Longrightarrow> \<exists>v. getUint16 dv off le = Inr v"
  by (simp add: getUint16_def Let_def)

lemma parseDefinition_Inr:
  "(\<exists>r. parseDefinition reg dv o1 slot dev = Inr r) \<longleftrightarrow>
     o1 + 5 \<le> length dv \<and>
     o1 + 5 + 3 * unat (dv ! (o1 + 4)) + (if dev then 1 else 0) \<le> length dv"
proof (cases "o1 + 5 \<le> length dv")
  case False
  then show ?thesis
    by (auto simp: parseDefinition_def getUint8_def getUint16_def split: sum.splits)
next
  case True
  define n where "n = unat (dv ! (o1 + 4))"
  define a1 where "a1 = unat (dv ! (o1 + 1))"
  have arch: "getUint8 dv (o1 + 1) = Inr a1"
    using True by (simp add: getUint8_Inr a1_def)
  obtain g where g: "getUint16 dv (o1 + 2) (a1 = 0) = Inr g"
    using True getUint16_Inr [of "o1 + 2" dv] by auto
  have nf: "getUint8 dv (o1 + 4) = Inr n"
    using True by (simp add: getUint8_Inr n_def)
  have fd: "(\<exists>fs. readFieldDefs dv (o1 + 5) n = Inr fs) \<longleftrightarrow> o1 + 5 + 3 * n \<le> length dv"
    using True by (auto simp: readFieldDefs_Inr)
  show ?thesis
  proof (cases "readFieldDefs dv (o1 + 5) n")
    case (Inl e)
    with fd have "\<not> o1 + 5 + 3 * n \<le> length dv" by auto
    moreover have "parseDefinition reg dv o1 slot dev = Inl e"
      by (simp only: parseDefinition_def arch g nf Inl sum.case)
    ultimately show ?thesis
      by (simp add: n_def)
  next
    case (Inr fs)
    with fd have le: "o1 + 5 + 3 * n \<le> length dv" by auto
    show ?thesis
    proof (cases dev)
      case False
      then have "parseDefinition reg dv o1 slot dev =
          Inr (reg(slot \<mapsto> \<lparr>globalMsgNum = g, msg_fields = fs, isLittleEndian = (a1 = 0)\<rparr>),
               o1 + 5 + 3 * n)"
        by (simp only: parseDefinition_def arch g nf Inr sum.case if_False)
      with True le False show ?thesis
        by (simp add: n_def)
    next
      case dev: True
      show ?thesis
      proof (cases "o1 + 5 + 3 * n < length dv")
        case True
        then have "getUint8 dv (o1 + 5 + 3 * n) = Inr (unat (dv ! (o1 + 5 + 3 * n)))"
          by (simp add: getUint8_Inr)
        with dev have "\<exists>r. parseDefinition reg dv o1 slot dev = Inr r"
          by (simp only: parseDefinition_def arch g nf Inr sum.case if_True) simp
        with True dev \<open>o1 + 5 \<le> length dv\<close> show ?thesis
          by (simp add: n_def)
      next
        case False
        then have "getUint8 dv (o1 + 5 + 3 * n) = Inl RangeError"
          by (simp add: getUint8_def)
        with dev have "parseDefinition reg dv o1 slot dev = Inl RangeError"
          by (simp only: parseDefinition_def arch g nf Inr sum.case if_True)
        with False dev \<open>o1 + 5 \<le> length dv\<close> show ?thesis
          by (simp add: n_def)
      qed
    qed
  qed
qed

lemma parseMessage_Inr:
  "(\<exists>r. parseMessage reg dv off act = Inr r) \<longleftrightarrow> messageFits dv off"
proof (cases "off < length dv")
  case False
  then show ?thesis by (simp add: parseMessage_def getUint8_def messageFits_def)
next
  case True
  show ?thesis
  proof (cases "unat (dv ! off) AND 0x40 = 0")
    case data: True
    with True show ?thesis
      by (auto simp: parseMessage_def getUint8_def messageFits_def Let_def
          split: option.splits prod.splits)
  next
    case False
    have "(\<exists>r. parseMessage reg dv off act = Inr r) \<longleftrightarrow>
          (\<exists>r. parseDefinition reg dv (off + 1) (unat (dv ! off) AND 0x0F)
                 (unat (dv ! off) AND 0x20 \<noteq> 0) = Inr r)"
      using True False
      by (auto simp: parseMessage_def getUint8_def Let_def split: sum.splits)
    also have "\<dots> \<longleftrightarrow> off + 6 \<le> length dv \<and>
        off + 6 + 3 * unat (dv ! (off + 5)) +
          (if unat (dv ! off) AND 0x20 = 0 then 0 else 1) \<le> length dv"
      unfolding parseDefinition_Inr by (simp add: add.commute add.left_commute)
    finally show ?thesis
      using True False by (simp add: messageFits_def)
  qed
qed

lemma parseMessage_any_activity:
  "parseMessage reg dv off act = Inr (reg', off', act') \<Longrightarrow>
   \<exists>a. parseMessage reg dv off act2 = Inr (reg', off', a)"
  by (auto simp: parseMessage_def Let_def split: sum.splits if_splits option.splits prod.splits)

lemma parseLoop_Inr:
  "(\<exists>a. snd (parseLoop reg dv off endOff act) = Inr a) \<longleftrightarrow>
     (\<forall>p \<in> set (messageOffsets reg dv off endOff). messageFits dv p)"
proof (induction reg dv off endOff act rule: parseLoop.induct)
  case (1 reg dv off endOff act)
  show ?case
  proof (cases "off < endOff")
    case False
    then show ?thesis
      by (simp add: parseLoop.simps messageOffsets.simps)
  next
    case True
    show ?thesis
    proof (cases "parseMessage reg dv off act")
      case (Inl e)
      then have "\<not> messageFits dv off"
        using parseMessage_Inr [of reg dv off act] by simp
      moreover have "off \<in> set (messageOffsets reg dv off endOff)"
        using True by (simp add: messageOffsets.simps [of reg dv off])
      moreover have "snd (parseLoop reg dv off endOff act) = Inl e"
        using True Inl by (simp add: parseLoop.simps [of reg dv off])
      ultimately show ?thesis by auto
    next
      case (Inr x)
      obtain reg' off' act' where x: "x = (reg', off', act')" by (cases x) auto
      have "\<exists>r. parseMessage reg dv off act = Inr r"
        using Inr by (rule exI)
      then have fits: "messageFits dv off"
        unfolding parseMessage_Inr .
      obtain a where a: "parseMessage reg dv off newActivity = Inr (reg', off', a)"
        using parseMessage_any_activity [of reg dv off act reg' off' act' newActivity] Inr x
        by auto
      have offs: "messageOffsets reg dv off endOff = off # messageOffsets reg' dv off' endOff"
        using True a by (simp add: messageOffsets.simps [of reg dv off])
      have loop: "parseLoop reg dv off endOff act = parseLoop reg' dv off' endOff act'"
        using True Inr x by (simp add: parseLoop.simps [of reg dv off])
      show ?thesis
        using "1.IH" [OF True Inr] x fits by (simp add: offs loop)
    qed
  qed
qed

lemma parseLoop_RangeError:
  "snd (parseLoop reg dv off endOff act) = Inl RangeError \<longleftrightarrow>
     (\<exists>p \<in> set (messageOffsets reg dv off endOff). \<not> messageFits dv p)"
proof -
  have "snd (parseLoop reg dv off endOff act) = Inl RangeError \<longleftrightarrow>
        \<not> (\<exists>a. snd (parseLoop reg dv off endOff act) = Inr a)"
    using parseLoop_error [of reg dv off endOff act]
    by (cases "snd (parseLoop reg dv off endOff act)") auto
  then show ?thesis
    by (simp add: parseLoop_Inr)
qed

lemma parse_valid:
  assumes "12 \<le> length buffer"
    and "map unat (take 4 (drop 8 buffer)) = map of_char ''.FIT''"
  shows "\<exists>dataSize. getUint32 buffer 4 True = Inr dataSize \<and>
           parse reg buffer =
             parseLoop reg buffer (unat (buffer ! 0)) (unat (buffer ! 0) + dataSize) newActivity"
proof -
  from assms(1) have "take 4 (drop 8 buffer) = [buffer ! 8, buffer ! 9, buffer ! 10, buffer ! 11]"
    by (auto intro!: nth_equalityI simp: nth_Cons split: nat.splits)
  with assms(2) have ok: "signatureOK (unat (buffer ! 8)) (unat (buffer ! 9))
      (unat (buffer ! 10)) (unat (buffer ! 11))"
    by (simp add: signatureOK_def)
  from assms(1) have ne: "buffer \<noteq> []" by auto
  obtain ds where ds: "getUint32 buffer 4 True = Inr ds"
    using assms(1) by (simp add: getUint32_def Let_def)
  have "parse reg buffer = parseLoop reg buffer (unat (buffer ! 0)) (unat (buffer ! 0) + ds) newActivity"
    using assms(1) ne ok by (simp add: parse_def getUint8_def ds)
  with ds show ?thesis by blast
qed

lemma parse_Inr:
  assumes "12 \<le> length buffer"
    and "map unat (take 4 (drop 8 buffer)) = map of_char ''.FIT''"
  shows "(\<exists>a. snd (parse reg buffer) = Inr a) \<longleftrightarrow>
           (\<forall>p \<in> set (messageOffsetsOf reg buffer). messageFits buffer p)"
    and "snd (parse reg buffer) = Inl RangeError \<longleftrightarrow>
           (\<exists>p \<in> set (messageOffsetsOf reg buffer). \<not> messageFits buffer p)"
proof -
  obtain ds where ds: "getUint32 buffer 4 True = Inr ds"
    and p: "parse reg buffer =
             parseLoop reg buffer (unat (buffer ! 0)) (unat (buffer ! 0) + ds) newActivity"
    using parse_valid [OF assms, of reg] by blast
  show "(\<exists>a. snd (parse reg buffer) = Inr a) \<longleftrightarrow>
           (\<forall>p \<in> set (messageOffsetsOf reg buffer). messageFits buffer p)"
    unfolding p messageOffsetsOf_def ds by (simp add: parseLoop_Inr)
  show "snd (parse reg buffer) = Inl RangeError \<longleftrightarrow>
           (\<exists>p \<in> set (messageOffsetsOf reg buffer). \<not> messageFits buffer p)"
    unfolding p messageOffsetsOf_def ds by (simp add: parseLoop_RangeError)
qed

text \<open>
  A file whose last data message is cut off inside a field value: the value is null and
  the activity is returned.
\<close>

lemma witness_offsets:
  "messageOffsetsOf Map.empty
     [12, 0x10, 0, 0, 11, 0, 0, 0, 0x2E, 0x46, 0x49, 0x54,
      0x40, 0, 0, 20, 0, 1, 3, 2, 0x84, 0x00, 7] = [12, 21]"
  by (simp add: messageOffsetsOf_def getUint32_def messageOffsets.simps parseMessage_def
      parseDefinition_def getUint8_def getUint16_def readFieldValue_def readFieldValue_try_def)

lemma truncated_field_is_null:
  "snd (parse Map.empty
          [12, 0x10, 0, 0, 11, 0, 0, 0, 0x2E, 0x46, 0x49, 0x54,
           0x40, 0, 0, 20, 0, 1, 3, 2, 0x84, 0x00, 7])
     = Inr \<lparr>sessions = [], laps = [], records = [[3 \<mapsto> Null]]\<rparr>"
  by (simp add: parse_def getUint8_def getUint16_def getUint32_def signatureOK_def
      parseMessage_def parseDefinition_def parseLoop.simps readFieldValue_def
      readFieldValue_try_def processMessage_def processRecord_def newActivity_def)

text \<open>
  Claim C1, as the decoder behaves. \<open>parse\<close> throws the signature error exactly when the
  buffer has at least twelve bytes and bytes 8 to 11 are not \<open>.FIT\<close>; a shorter buffer
  makes a header read throw a RangeError. With a valid signature \<open>parse\<close> returns an
  activity exactly when every message the loop meets fits in the buffer (record header
  and, for a definition message, the bytes of the definition), and throws a RangeError
  exactly when one does not; a single message throws exactly when it does not fit. What
  is absorbed is the read of a field value: \<open>readFieldValue\<close> never throws, and gives
  null exactly when the field has a positive width and reaches beyond the buffer. Hence a
  data message whose record header lies in the buffer never throws.
\<close>

theorem decode_failures:
  "(snd (parse reg buffer) = Inl FormatError \<longleftrightarrow>
      12 \<le> length buffer \<and> map unat (take 4 (drop 8 buffer)) \<noteq> map of_char ''.FIT'')
   \<and> (length buffer < 12 \<longrightarrow> snd (parse reg buffer) = Inl RangeError)
   \<and> (12 \<le> length buffer \<and> map unat (take 4 (drop 8 buffer)) = map of_char ''.FIT'' \<longrightarrow>
        ((\<exists>act. snd (parse reg buffer) = Inr act) \<longleftrightarrow>
           (\<forall>p \<in> set (messageOffsetsOf reg buffer). messageFits buffer p))
        \<and> (snd (parse reg buffer) = Inl RangeError \<longleftrightarrow>
           (\<exists>p \<in> set (messageOffsetsOf reg buffer). \<not> messageFits buffer p)))
   \<and> ((\<exists>r. parseMessage reg dataView offset act = Inr r) \<longleftrightarrow> messageFits dataView offset)
   \<and> (parseMessage reg dataView offset act = Inl RangeError \<longleftrightarrow>
        \<not> messageFits dataView offset)
   \<and> (readFieldValue dataView offset field littleEndian = Null \<longleftrightarrow>
        0 < field_size field \<and> length dataView < offset + field_size field)
   \<and> (offset < length dataView \<and> unat (dataView ! offset) AND 0x40 = 0 \<longrightarrow>
        (\<exists>r. parseMessage reg dataView offset act = Inr r))"
proof -
  have msg: "parseMessage reg dataView offset act = Inl RangeError \<longleftrightarrow>
        \<not> messageFits dataView offset"
    using parseMessage_Inr [of reg dataView offset act]
      parseMessage_error [of reg dataView offset act]
    by (cases "parseMessage reg dataView offset act") auto
  show ?thesis
    using parse_FormatError [of reg buffer] parse_short [of buffer reg]
      parse_Inr [of buffer reg]
      parseMessage_Inr [of reg dataView offset act] msg
      readFieldValue_Null [of dataView offset field littleEndian]
      data_total [of offset dataView reg act]
    by blast
qed

theorem decode_failures_witness:
  "snd (parse Map.empty []) = Inl RangeError
   \<and> snd (parse Map.empty [12, 0x10, 0, 0, 0, 0, 0, 0, 0x2E, 0x46, 0x49, 0x00]) = Inl FormatError
   \<and> messageOffsetsOf Map.empty
          [12, 0x10, 0, 0, 11, 0, 0, 0, 0x2E, 0x46, 0x49, 0x54,
           0x40, 0, 0, 20, 0, 1, 3, 2, 0x84, 0x00, 7] = [12, 21]
   \<and> messageFits
          [12, 0x10, 0, 0, 11, 0, 0, 0, 0x2E, 0x46, 0x49, 0x54,
           0x40, 0, 0, 20, 0, 1, 3, 2, 0x84, 0x00, 7] 12
   \<and> messageFits
          [12, 0x10, 0, 0, 11, 0, 0, 0, 0x2E, 0x46, 0x49, 0x54,
           0x40, 0, 0, 20, 0, 1, 3, 2, 0x84, 0x00, 7] 21
   \<and> snd (parse Map.empty
          [12, 0x10, 0, 0, 11, 0, 0, 0, 0x2E, 0x46, 0x49, 0x54,
           0x40, 0, 0, 20, 0, 1, 3, 2, 0x84, 0x00, 7])
       = Inr \<lparr>sessions = [], laps = [], records = [[3 \<mapsto> Null]]\<rparr>
   \<and> readFieldValue [7] 0 \<lparr>field_num = 3, field_size = 2, field_type = 0x84\<rparr> True = Null
   \<and> (\<exists>r. parseMessage Map.empty [7] 0 newActivity = Inr r)"
proof -
  have fits: "\<forall>p \<in> set (messageOffsetsOf Map.empty
          [12, 0x10, 0, 0, 11, 0, 0, 0, 0x2E, 0x46, 0x49, 0x54,
           0x40, 0, 0, 20, 0, 1, 3, 2, 0x84, 0x00, 7]).
        messageFits
          [12, 0x10, 0, 0, 11, 0, 0, 0, 0x2E, 0x46, 0x49, 0x54,
           0x40, 0, 0, 20, 0, 1, 3, 2, 0x84, 0x00, 7] p"
    unfolding witness_offsets by (simp add: messageFits_def)
  show ?thesis
    using fits witness_offsets truncated_field_is_null
      decode_failures [of Map.empty "[]" "[7]" 0 newActivity
        "\<lparr>field_num = 3, field_size = 2, field_type = 0x84\<rparr>" True]
      decode_failures [of Map.empty "[12, 0x10, 0, 0, 0, 0, 0, 0, 0x2E, 0x46, 0x49, 0x00]"
        "[7]" 0 newActivity "\<lparr>field_num = 3, field_size = 2, field_type = 0x84\<rparr>" True]
      decode_failures [of Map.empty
        "[12, 0x10, 0, 0, 11, 0, 0, 0, 0x2E, 0x46, 0x49, 0x54,
          0x40, 0, 0, 20, 0, 1, 3, 2, 0x84, 0x00, 7]"
        "[7]" 0 newActivity "\<lparr>field_num = 3, field_size = 2, field_type = 0x84\<rparr>" True]
    by (simp add: messageFits_def)
qed

text \<open>
  Claim C1 as stated says that a buffer with a valid signature never makes \<open>parse\<close>
  throw. A definition message cut off after its architecture byte does: the reads of a
  definition message are outside any try block.
\<close>

theorem decode_truncated_definition_counterexample:
  "map unat (take 4 (drop 8
       [14, 0x10, 0, 0, 3, 0, 0, 0, 0x2E, 0x46, 0x49, 0x54, 0, 0, 0x40, 0, 0 :: byte]))
     = map of_char ''.FIT''
   \<and> snd (parse newFITParser
            [14, 0x10, 0, 0, 3, 0, 0, 0, 0x2E, 0x46, 0x49, 0x54, 0, 0, 0x40, 0, 0])
     = Inl RangeError"
  by (simp add: parse_def getUint8_def getUint16_def getUint32_def signatureOK_def
      newFITParser_def parseMessage_def parseDefinition_def parseLoop.simps)

subsection \<open>A data message for an unregistered slot\<close>

text \<open>
  Claim C9. A data message (record-header bit 0x40 clear) whose low four bits name a local
  slot without a registered schema makes \<open>parseMessage\<close> consume the record header only:
  the offset advances by one, the schema table and the activity are unchanged, and the
  message loop resumes at the next byte, which it reads as a record header.
\<close>

theorem unregistered_slot_consumes_header_only:
  assumes "offset < length dataView"
    and "unat (dataView ! offset) AND 0x40 = 0"
    and "localMessageTypes (unat (dataView ! offset) AND 0x0F) = None"
  shows "parseMessage localMessageTypes dataView offset act
           = Inr (localMessageTypes, offset + 1, act)
         \<and> (offset < endOffset \<longrightarrow>
              parseLoop localMessageTypes dataView offset endOffset act
                = parseLoop localMessageTypes dataView (offset + 1) endOffset act)"
proof -
  have step: "parseMessage localMessageTypes dataView offset act
                = Inr (localMessageTypes, offset + 1, act)"
    using assms by (simp add: parseMessage_def getUint8_def)
  then show ?thesis
    by (simp add: parseLoop.simps [of localMessageTypes dataView offset])
qed

theorem unregistered_slot_consumes_header_only_witness:
  "(0::nat) < length [0x05, 0x07 :: byte]
   \<and> unat ([0x05, 0x07 :: byte] ! 0) AND 0x40 = 0
   \<and> (Map.empty :: registry) (unat ([0x05, 0x07 :: byte] ! 0) AND 0x0F) = None
   \<and> parseMessage Map.empty [0x05, 0x07] 0 newActivity = Inr (Map.empty, 1, newActivity)
   \<and> parseLoop Map.empty [0x05, 0x07] 0 2 newActivity
       = parseLoop Map.empty [0x05, 0x07] 1 2 newActivity"
  using unregistered_slot_consumes_header_only [of 0 "[0x05, 0x07]" Map.empty newActivity 2]
  by simp

subsection \<open>The schema table across decodes\<close>

lemma parseDefinition_dom:
  "parseDefinition reg dv off slot dev = Inr (reg', off') \<Longrightarrow> dom reg \<subseteq> dom reg'"
  by (auto simp: parseDefinition_def split: sum.splits if_splits)

lemma parseMessage_dom:
  "parseMessage reg dv off act = Inr (reg', off', act') \<Longrightarrow> dom reg \<subseteq> dom reg'"
  by (auto simp: parseMessage_def Let_def split: sum.splits if_splits option.splits prod.splits
      dest!: parseDefinition_dom)

lemma parseLoop_dom: "dom reg \<subseteq> dom (fst (parseLoop reg dv off endOff act))"
proof (induction reg dv off endOff act rule: parseLoop.induct)
  case (1 reg dv off endOff act)
  show ?case
  proof (cases "off < endOff")
    case False
    then show ?thesis by (simp add: parseLoop.simps)
  next
    case True
    show ?thesis
    proof (cases "parseMessage reg dv off act")
      case (Inl e)
      with True show ?thesis by (simp add: parseLoop.simps)
    next
      case (Inr x)
      obtain reg' off' act' where x: "x = (reg', off', act')" by (cases x) auto
      have "dom reg \<subseteq> dom reg'"
        using Inr x by (auto dest: parseMessage_dom)
      also have "\<dots> \<subseteq> dom (fst (parseLoop reg' dv off' endOff act'))"
        using "1.IH" [OF True Inr] x by simp
      also have "parseLoop reg' dv off' endOff act' = parseLoop reg dv off endOff act"
        using True Inr x by (simp add: parseLoop.simps [of reg dv off])
      finally show ?thesis .
    qed
  qed
qed

lemma parse_dom: "dom reg \<subseteq> dom (fst (parse reg buffer))"
  using parseLoop_dom [of reg buffer]
  by (auto simp: parse_def split: sum.splits)

lemma parseDefinition_frame:
  "parseDefinition reg dv off slot dev = Inr (reg', off') \<Longrightarrow> s \<noteq> slot \<Longrightarrow> reg' s = reg s"
  by (auto simp: parseDefinition_def split: sum.splits if_splits)

lemma parseMessage_frame:
  assumes "parseMessage reg dv off act = Inr (reg', off', act')" and "reg' s \<noteq> reg s"
  shows "definesSlot dv off s"
proof -
  from assms(1) have inb: "off < length dv"
    by (auto simp: parseMessage_def getUint8_def split: if_splits)
  show ?thesis
  proof (cases "unat (dv ! off) AND 0x40 = 0")
    case True
    with assms inb show ?thesis
      by (auto simp: parseMessage_def Let_def getUint8_def split: option.splits prod.splits)
  next
    case False
    with assms(1) inb obtain dev where
      "parseDefinition reg dv (off + 1) (unat (dv ! off) AND 0x0F) dev = Inr (reg', off')"
      by (auto simp: parseMessage_def Let_def getUint8_def split: sum.splits)
    then have "s = unat (dv ! off) AND 0x0F"
      using assms(2) parseDefinition_frame [of reg dv "off + 1" "unat (dv ! off) AND 0x0F" dev reg' off' s]
      by auto
    with False inb show ?thesis
      by (simp add: definesSlot_def)
  qed
qed

lemma parseLoop_frame:
  "fst (parseLoop reg dv off endOff act) s \<noteq> reg s \<Longrightarrow>
   \<exists>p \<in> set (messageOffsets reg dv off endOff). definesSlot dv p s"
proof (induction reg dv off endOff act rule: parseLoop.induct)
  case (1 reg dv off endOff act)
  show ?case
  proof (cases "off < endOff")
    case False
    with "1.prems" show ?thesis by (simp add: parseLoop.simps)
  next
    case True
    show ?thesis
    proof (cases "parseMessage reg dv off act")
      case (Inl e)
      with True "1.prems" show ?thesis by (simp add: parseLoop.simps)
    next
      case (Inr x)
      obtain reg' off' act' where x: "x = (reg', off', act')" by (cases x) auto
      obtain a where a: "parseMessage reg dv off newActivity = Inr (reg', off', a)"
        using parseMessage_any_activity [of reg dv off act reg' off' act' newActivity] Inr x
        by auto
      have offs: "messageOffsets reg dv off endOff = off # messageOffsets reg' dv off' endOff"
        using True a by (simp add: messageOffsets.simps [of reg dv off])
      have loop: "parseLoop reg dv off endOff act = parseLoop reg' dv off' endOff act'"
        using True Inr x by (simp add: parseLoop.simps [of reg dv off])
      show ?thesis
      proof (cases "reg' s = reg s")
        case True
        with "1.prems" loop have "fst (parseLoop reg' dv off' endOff act') s \<noteq> reg' s"
          by simp
        then have "\<exists>p \<in> set (messageOffsets reg' dv off' endOff). definesSlot dv p s"
          using "1.IH" [OF \<open>off < endOff\<close> Inr] x by simp
        then show ?thesis by (simp add: offs)
      next
        case False
        then have "definesSlot dv off s"
          using Inr x parseMessage_frame [of reg dv off act reg' off' act' s] by simp
        then show ?thesis by (simp add: offs)
      qed
    qed
  qed
qed

lemma parse_frame:
  "fst (parse reg buffer) s \<noteq> reg s \<Longrightarrow>
   \<exists>p \<in> set (messageOffsetsOf reg buffer). definesSlot buffer p s"
proof -
  assume ch: "fst (parse reg buffer) s \<noteq> reg s"
  then obtain hs ds where "getUint32 buffer 4 True = Inr ds"
    and "getUint8 buffer 0 = Inr hs"
    and "parse reg buffer = parseLoop reg buffer hs (hs + ds) newActivity"
    by (auto simp: parse_def split: sum.splits if_splits)
  moreover from this have "hs = unat (buffer ! 0)"
    by (auto simp: getUint8_def split: if_splits)
  ultimately show ?thesis
    using ch parseLoop_frame [of reg buffer hs "hs + ds" newActivity s]
    by (simp add: messageOffsetsOf_def)
qed

text \<open>
  Claim C5, as the decoder behaves. The schema table belongs to the parser object: the
  constructor sets it to the empty table and \<open>parse\<close> never clears it. Every slot that
  holds a schema when \<open>parse\<close> starts still holds one when it returns or throws. A slot
  whose entry differs after \<open>parse\<close> (or after one message) is the slot of a definition
  message that the loop met: nothing else changes the table. A data message is decoded
  with the schema the table holds for its slot, whichever call of \<open>parse\<close> registered it.
\<close>

theorem registry_kept_across_decodes:
  "newFITParser = Map.empty
   \<and> dom reg \<subseteq> dom (fst (parse reg buffer))
   \<and> (fst (parse reg buffer) slot \<noteq> reg slot \<longrightarrow>
        (\<exists>p \<in> set (messageOffsetsOf reg buffer). definesSlot buffer p slot))
   \<and> (parseMessage reg dataView offset act = Inr (reg', offset', act') \<and> reg' slot \<noteq> reg slot
        \<longrightarrow> definesSlot dataView offset slot)
   \<and> (offset < length dataView \<and> unat (dataView ! offset) AND 0x40 = 0
        \<and> reg (unat (dataView ! offset) AND 0x0F) = Some msgDef
      \<longrightarrow> parseMessage reg dataView offset act =
            Inr (reg,
                 snd (readFields dataView (isLittleEndian msgDef) (msg_fields msgDef)
                        (offset + 1) Map.empty),
                 processMessage (globalMsgNum msgDef)
                   (fst (readFields dataView (isLittleEndian msgDef) (msg_fields msgDef)
                           (offset + 1) Map.empty)) act))"
proof -
  have data: "offset < length dataView \<and> unat (dataView ! offset) AND 0x40 = 0
        \<and> reg (unat (dataView ! offset) AND 0x0F) = Some msgDef
      \<longrightarrow> parseMessage reg dataView offset act =
            Inr (reg,
                 snd (readFields dataView (isLittleEndian msgDef) (msg_fields msgDef)
                        (offset + 1) Map.empty),
                 processMessage (globalMsgNum msgDef)
                   (fst (readFields dataView (isLittleEndian msgDef) (msg_fields msgDef)
                           (offset + 1) Map.empty)) act)"
    by (auto simp: parseMessage_def getUint8_def Let_def split: prod.splits)
  show ?thesis
    using data parse_dom [of reg buffer] parse_frame [of reg buffer slot]
      parseMessage_frame [of reg dataView offset act reg' offset' act' slot]
    by (simp add: newFITParser_def)
qed

theorem registry_kept_across_decodes_witness:
  "fst (parse Map.empty
          [12, 0x10, 0, 0, 9, 0, 0, 0, 0x2E, 0x46, 0x49, 0x54,
           0x40, 0, 0, 20, 0, 1, 3, 1, 2]) 0 \<noteq> (Map.empty :: registry) 0
   \<and> messageOffsetsOf Map.empty
          [12, 0x10, 0, 0, 9, 0, 0, 0, 0x2E, 0x46, 0x49, 0x54,
           0x40, 0, 0, 20, 0, 1, 3, 1, 2] = [12]
   \<and> definesSlot
          [12, 0x10, 0, 0, 9, 0, 0, 0, 0x2E, 0x46, 0x49, 0x54,
           0x40, 0, 0, 20, 0, 1, 3, 1, 2] 12 0
   \<and> parseMessage Map.empty [0x40, 0, 0, 20, 0, 1, 3, 1, 2] 0 newActivity
       = Inr ([0 \<mapsto> \<lparr>globalMsgNum = 20,
                msg_fields = [\<lparr>field_num = 3, field_size = 1, field_type = 2\<rparr>],
                isLittleEndian = True\<rparr>], 9, newActivity)
   \<and> definesSlot [0x40, 0, 0, 20, 0, 1, 3, 1, 2] 0 0
   \<and> (0::nat) < length [0x00, 150 :: byte] \<and> unat ([0x00, 150 :: byte] ! 0) AND 0x40 = 0
   \<and> [0 \<mapsto> \<lparr>globalMsgNum = 20,
              msg_fields = [\<lparr>field_num = 3, field_size = 1, field_type = 2\<rparr>],
              isLittleEndian = True\<rparr>] (unat ([0x00, 150 :: byte] ! 0) AND 0x0F)
       = Some \<lparr>globalMsgNum = 20,
              msg_fields = [\<lparr>field_num = 3, field_size = 1, field_type = 2\<rparr>],
              isLittleEndian = True\<rparr>
   \<and> parseMessage
         [0 \<mapsto> \<lparr>globalMsgNum = 20,
                msg_fields = [\<lparr>field_num = 3, field_size = 1, field_type = 2\<rparr>],
                isLittleEndian = True\<rparr>]
         [0x00, 150] 0 newActivity
       = Inr ([0 \<mapsto> \<lparr>globalMsgNum = 20,
                msg_fields = [\<lparr>field_num = 3, field_size = 1, field_type = 2\<rparr>],
                isLittleEndian = True\<rparr>],
              2, \<lparr>sessions = [], laps = [], records = [[3 \<mapsto> Number 150]]\<rparr>)"
proof -
  have first: "parse Map.empty
          [12, 0x10, 0, 0, 9, 0, 0, 0, 0x2E, 0x46, 0x49, 0x54,
           0x40, 0, 0, 20, 0, 1, 3, 1, 2]
     = ([0 \<mapsto> \<lparr>globalMsgNum = 20,
              msg_fields = [\<lparr>field_num = 3, field_size = 1, field_type = 2\<rparr>],
              isLittleEndian = True\<rparr>], Inr newActivity)"
    by (simp add: parse_def getUint8_def getUint16_def getUint32_def signatureOK_def
        parseMessage_def parseDefinition_def parseLoop.simps)
  have changed: "fst (parse Map.empty
          [12, 0x10, 0, 0, 9, 0, 0, 0, 0x2E, 0x46, 0x49, 0x54,
           0x40, 0, 0, 20, 0, 1, 3, 1, 2]) 0 \<noteq> (Map.empty :: registry) 0"
    unfolding first by simp
  have defn: "parseMessage Map.empty [0x40, 0, 0, 20, 0, 1, 3, 1, 2] 0 newActivity
       = Inr ([0 \<mapsto> \<lparr>globalMsgNum = 20,
                msg_fields = [\<lparr>field_num = 3, field_size = 1, field_type = 2\<rparr>],
                isLittleEndian = True\<rparr>], 9, newActivity)"
    by (simp add: parseMessage_def parseDefinition_def getUint8_def getUint16_def)
  have whole: "\<exists>p \<in> set (messageOffsetsOf Map.empty
          [12, 0x10, 0, 0, 9, 0, 0, 0, 0x2E, 0x46, 0x49, 0x54,
           0x40, 0, 0, 20, 0, 1, 3, 1, 2]).
        definesSlot
          [12, 0x10, 0, 0, 9, 0, 0, 0, 0x2E, 0x46, 0x49, 0x54,
           0x40, 0, 0, 20, 0, 1, 3, 1, 2] p 0"
    using changed
      registry_kept_across_decodes [of Map.empty
        "[12, 0x10, 0, 0, 9, 0, 0, 0, 0x2E, 0x46, 0x49, 0x54,
          0x40, 0, 0, 20, 0, 1, 3, 1, 2]" 0]
    by blast
  have one: "definesSlot [0x40, 0, 0, 20, 0, 1, 3, 1, 2] 0 0"
    using defn
      registry_kept_across_decodes [of Map.empty "[]" 0
        "[0x40, 0, 0, 20, 0, 1, 3, 1, 2]" 0 newActivity
        "[0 \<mapsto> \<lparr>globalMsgNum = 20,
                msg_fields = [\<lparr>field_num = 3, field_size = 1, field_type = 2\<rparr>],
                isLittleEndian = True\<rparr>]" 9 newActivity]
    by simp
  have data: "parseMessage
         [0 \<mapsto> \<lparr>globalMsgNum = 20,
                msg_fields = [\<lparr>field_num = 3, field_size = 1, field_type = 2\<rparr>],
                isLittleEndian = True\<rparr>]
         [0x00, 150] 0 newActivity
       = Inr ([0 \<mapsto> \<lparr>globalMsgNum = 20,
                msg_fields = [\<lparr>field_num = 3, field_size = 1, field_type = 2\<rparr>],
                isLittleEndian = True\<rparr>],
              2, \<lparr>sessions = [], laps = [], records = [[3 \<mapsto> Number 150]]\<rparr>)"
    using registry_kept_across_decodes
      [of "[0 \<mapsto> \<lparr>globalMsgNum = 20,
            msg_fields = [\<lparr>field_num = 3, field_size = 1, field_type = 2\<rparr>],
            isLittleEndian = True\<rparr>]" "[]" 0 "[0x00, 150]" 0 newActivity _ _ _
          "\<lparr>globalMsgNum = 20,
            msg_fields = [\<lparr>field_num = 3, field_size = 1, field_type = 2\<rparr>],
            isLittleEndian = True\<rparr>"]
    by (simp add: newFITParser_def readFieldValue_def readFieldValue_try_def getUint8_def
        processMessage_def processRecord_def newActivity_def)
  have offs: "messageOffsetsOf Map.empty
          [12, 0x10, 0, 0, 9, 0, 0, 0, 0x2E, 0x46, 0x49, 0x54,
           0x40, 0, 0, 20, 0, 1, 3, 1, 2] = [12]"
    by (simp add: messageOffsetsOf_def getUint32_def messageOffsets.simps parseMessage_def
        parseDefinition_def getUint8_def getUint16_def)
  show ?thesis
    using changed whole defn one data unfolding offs by simp
qed

text \<open>
  Claim C5 as stated says that a later \<open>parse\<close> on the same parser starts from an empty
  table. After a first file that defines slot 0 as a record message (kind 20) with one
  one-byte field, a second file that holds only a data message for slot 0 yields a record;
  on a new parser the same second file yields none.
\<close>

theorem registry_not_reset_counterexample:
  "fst (parse newFITParser
          [12, 0x10, 0, 0, 9, 0, 0, 0, 0x2E, 0x46, 0x49, 0x54,
           0x40, 0, 0, 20, 0, 1, 3, 1, 2]) 0
     = Some \<lparr>globalMsgNum = 20,
              msg_fields = [\<lparr>field_num = 3, field_size = 1, field_type = 2\<rparr>],
              isLittleEndian = True\<rparr>
   \<and> snd (parse
            (fst (parse newFITParser
                    [12, 0x10, 0, 0, 9, 0, 0, 0, 0x2E, 0x46, 0x49, 0x54,
                     0x40, 0, 0, 20, 0, 1, 3, 1, 2]))
            [12, 0x10, 0, 0, 2, 0, 0, 0, 0x2E, 0x46, 0x49, 0x54, 0x00, 150])
     = Inr \<lparr>sessions = [], laps = [], records = [[3 \<mapsto> Number 150]]\<rparr>
   \<and> snd (parse newFITParser
            [12, 0x10, 0, 0, 2, 0, 0, 0, 0x2E, 0x46, 0x49, 0x54, 0x00, 150])
     = Inr \<lparr>sessions = [], laps = [], records = []\<rparr>"
proof -
  have first: "parse newFITParser
          [12, 0x10, 0, 0, 9, 0, 0, 0, 0x2E, 0x46, 0x49, 0x54,
           0x40, 0, 0, 20, 0, 1, 3, 1, 2]
     = ([0 \<mapsto> \<lparr>globalMsgNum = 20,
              msg_fields = [\<lparr>field_num = 3, field_size = 1, field_type = 2\<rparr>],
              isLittleEndian = True\<rparr>], Inr newActivity)"
    by (simp add: parse_def getUint8_def getUint16_def getUint32_def signatureOK_def
        newFITParser_def parseMessage_def parseDefinition_def parseLoop.simps)
  have later: "snd (parse
            [0 \<mapsto> \<lparr>globalMsgNum = 20,
              msg_fields = [\<lparr>field_num = 3, field_size = 1, field_type = 2\<rparr>],
              isLittleEndian = True\<rparr>]
            [12, 0x10, 0, 0, 2, 0, 0, 0, 0x2E, 0x46, 0x49, 0x54, 0x00, 150])
     = Inr \<lparr>sessions = [], laps = [], records = [[3 \<mapsto> Number 150]]\<rparr>"
    by (simp add: parse_def getUint8_def getUint32_def signatureOK_def parseMessage_def
        parseLoop.simps readFieldValue_def readFieldValue_try_def processMessage_def
        processRecord_def newActivity_def)
  have fresh: "snd (parse newFITParser
            [12, 0x10, 0, 0, 2, 0, 0, 0, 0x2E, 0x46, 0x49, 0x54, 0x00, 150])
     = Inr \<lparr>sessions = [], laps = [], records = []\<rparr>"
    by (simp add: parse_def getUint8_def getUint32_def signatureOK_def newFITParser_def
        parseMessage_def parseLoop.simps newActivity_def)
  show ?thesis
    unfolding first fst_conv using later fresh by simp
qed

section \<open>Properties of the TSS calculator\<close>

subsection \<open>The running example\<close>

lemma formatPace_256: "formatPace 256 = ''4:16''"
proof -
  have m: "\<lfloor>(256::real) / 60\<rfloor> = 4" by simp
  have r: "js_rem 256 60 = 16" by (simp add: js_rem_def)
  show ?thesis
    by (simp add: formatPace_def m r Let_def showInt_def showNat.simps padStart_def)
qed

text \<open>
  Claim C2, as the calculator computes it. With a run threshold of 256 s/km, a distance of
  10000 m and a duration of 2560 s the running branch gives a pace of 256 s/km (printed
  \<open>4:16\<close>), an intensity factor of 1 and a score of 71: the duration is 2560/3600 of an
  hour, and \<open>duration_hours * IF\<^sup>2 * 100\<close> is 71.1.
\<close>

theorem running_example:
  assumes "runThreshold c = 256"
    and "totalTime activity = JNum 2560"
    and "totalDistance activity = JNum 10000"
  shows "calculateRunningTSS c activity =
           \<lparr>tss = JNum 71, type = rTSS, IF = JNum 1, tss_method = M_pace, np = None,
            pace = Some ''4:16'', paceSeconds = Some 256, avgHR = None\<rparr>
         \<and> (sport activity = ''running'' \<longrightarrow>
              calculateTSS c activity = calculateRunningTSS c activity)"
proof -
  have "calculateRunningTSS c activity =
           \<lparr>tss = JNum 71, type = rTSS, IF = JNum 1, tss_method = M_pace, np = None,
            pace = Some ''4:16'', paceSeconds = Some 256, avgHR = None\<rparr>"
    using assms
    by (simp add: calculateRunningTSS_def truthy_def Let_def Math_round_def formatPace_256)
  then show ?thesis
    by (simp add: calculateTSS_def)
qed

theorem running_example_witness:
  "runThreshold (newTSSCalculator \<lparr>s_ftp = JNum 300, s_runThreshold = JNum 256,
       s_swimThreshold = JNum 100, s_lthr = JUndefined\<rparr>) = 256
   \<and> calculateTSS
        (newTSSCalculator \<lparr>s_ftp = JNum 300, s_runThreshold = JNum 256,
           s_swimThreshold = JNum 100, s_lthr = JUndefined\<rparr>)
        \<lparr>sport = ''running'', totalTime = JNum 2560, totalDistance = JNum 10000,
         normalizedPower = JUndefined, avgPower = JUndefined, avgHeartRate = JUndefined\<rparr>
      = \<lparr>tss = JNum 71, type = rTSS, IF = JNum 1, tss_method = M_pace, np = None,
         pace = Some ''4:16'', paceSeconds = Some 256, avgHR = None\<rparr>"
  using running_example
    [of "newTSSCalculator \<lparr>s_ftp = JNum 300, s_runThreshold = JNum 256,
           s_swimThreshold = JNum 100, s_lthr = JUndefined\<rparr>"
        "\<lparr>sport = ''running'', totalTime = JNum 2560, totalDistance = JNum 10000,
         normalizedPower = JUndefined, avgPower = JUndefined, avgHeartRate = JUndefined\<rparr>"]
  by (simp add: newTSSCalculator_def js_or_def truthy_def)

text \<open>Claim C2 as stated gives the score as 100; the calculator returns 71.\<close>

theorem running_example_counterexample:
  "tss (calculateRunningTSS
          (newTSSCalculator \<lparr>s_ftp = JNum 300, s_runThreshold = JNum 256,
             s_swimThreshold = JNum 100, s_lthr = JUndefined\<rparr>)
          \<lparr>sport = ''running'', totalTime = JNum 2560, totalDistance = JNum 10000,
           normalizedPower = JUndefined, avgPower = JUndefined, avgHeartRate = JUndefined\<rparr>)
     = JNum 71
   \<and> JNum 71 \<noteq> JNum 100"
  by (simp add: calculateRunningTSS_def newTSSCalculator_def js_or_def truthy_def Let_def
      Math_round_def)

subsection \<open>The result when the duration is absent\<close>

text \<open>
  The thresholds of a calculator are never zero: the constructor and \<open>updateSettings\<close>
  store a setting only when it is truthy.
\<close>

lemma newTSSCalculator_nonzero:
  "ftp (newTSSCalculator st) \<noteq> 0 \<and> runThreshold (newTSSCalculator st) \<noteq> 0
   \<and> swimThreshold (newTSSCalculator st) \<noteq> 0 \<and> lthr (newTSSCalculator st) \<noteq> 0"
  by (auto simp: newTSSCalculator_def js_or_def truthy_def split: jsval.splits)

lemma updateSettings_nonzero:
  "ftp c \<noteq> 0 \<and> runThreshold c \<noteq> 0 \<and> swimThreshold c \<noteq> 0 \<and> lthr c \<noteq> 0 \<Longrightarrow>
   ftp (updateSettings c st) \<noteq> 0 \<and> runThreshold (updateSettings c st) \<noteq> 0
   \<and> swimThreshold (updateSettings c st) \<noteq> 0 \<and> lthr (updateSettings c st) \<noteq> 0"
  by (auto simp: updateSettings_def truthy_def split: jsval.splits)

text \<open>
  Whenever \<open>totalTime\<close> converts to a number (a number or null), every branch returns an
  integral \<open>tss\<close> and an \<open>IF\<close> of whole hundredths; in the ultimate fallback the score
  is \<open>Math.round(duration / 60)\<close>.
\<close>

lemma Math_round_int: "Math_round x \<in> \<int>"
  by (simp add: Math_round_def)

lemma HRBased_shape:
  "toNumber (totalTime a) \<noteq> None \<Longrightarrow>
     isInteger (tss (calculateHRBasedTSS c a)) \<and> isHundredths (IF (calculateHRBasedTSS c a))"
  by (auto simp: calculateHRBasedTSS_def Let_def isInteger_def isHundredths_def Math_round_int
      split: option.splits)

lemma calculateTSS_shape:
  assumes "toNumber (totalTime a) \<noteq> None"
    and "ftp c \<noteq> 0" "runThreshold c \<noteq> 0" "swimThreshold c \<noteq> 0" "lthr c \<noteq> 0"
  shows "isInteger (tss (calculateTSS c a)) \<and> isHundredths (IF (calculateTSS c a))"
  using HRBased_shape [OF assms(1), of c]
  by (auto simp: calculateTSS_def calculateCyclingTSS_def calculateRunningTSS_def
      calculateSwimmingTSS_def Let_def isInteger_def isHundredths_def Math_round_int)

lemma fallback_result:
  "\<not> truthy (totalTime a) \<or> \<not> truthy (avgHeartRate a) \<Longrightarrow>
   calculateHRBasedTSS c a =
     \<lparr>tss = (case toNumber (totalTime a) of None \<Rightarrow> JNaN | Some d \<Rightarrow> JNum (Math_round (d / 60))),
      type = TSS, IF = JNum (7 / 10), tss_method = M_duration_estimate,
      np = None, pace = None, paceSeconds = None, avgHR = None\<rparr>"
  by (auto simp: calculateHRBasedTSS_def Let_def)

text \<open>
  Claim C3 at an activity without \<open>totalTime\<close> (and without heart rate). Every sport
  ends in the ultimate fallback, which divides the absent duration by 60: the result has
  \<open>tss = NaN\<close>, not an integer.
\<close>

theorem absent_duration_gives_NaN:
  "calculateTSS c
     \<lparr>sport = ''generic'', totalTime = JUndefined, totalDistance = JUndefined,
      normalizedPower = JUndefined, avgPower = JUndefined, avgHeartRate = JUndefined\<rparr>
   = \<lparr>tss = JNaN, type = TSS, IF = JNum (7 / 10), tss_method = M_duration_estimate,
      np = None, pace = None, paceSeconds = None, avgHR = None\<rparr>"
  by (simp add: calculateTSS_def calculateHRBasedTSS_def truthy_def)

subsection \<open>parsePace\<close>


lemma js_split_no_sep: "sep \<notin> set s \<Longrightarrow> js_split sep s = [s]"
  by (induction s) auto

lemma js_split_two:
  "count_list s sep = 1 \<Longrightarrow>
   js_split sep s = [takeWhile (\<lambda>c. c \<noteq> sep) s, tl (dropWhile (\<lambda>c. c \<noteq> sep) s)]"
proof (induction s)
  case Nil
  then show ?case by simp
next
  case (Cons c cs)
  show ?case
  proof (cases "c = sep")
    case True
    with Cons.prems have "count_list cs sep = 0" by simp
    then have "sep \<notin> set cs" by (simp add: count_list_0_iff)
    with True show ?thesis by (simp add: js_split_no_sep)
  next
    case False
    with Cons show ?thesis by simp
  qed
qed




text \<open>The digits read by \<open>parseInt\<close> and their positional value.\<close>

lemma digit_char:
  "isDigit radix c \<Longrightarrow>
     \<not> isWhiteSpace c \<and> c \<noteq> CHR ''-'' \<and> c \<noteq> CHR ''+'' \<and> c \<noteq> CHR '':''"
  by (auto simp: isDigit_def digitVal_def isWhiteSpace_def Let_def split: if_splits option.splits)

lemma x_not_decimal: "\<not> isDigit 10 CHR ''x''" "\<not> isDigit 10 CHR ''X''"
  by (simp_all add: isDigit_def digitVal_def)

lemma zero_char: "\<not> isWhiteSpace CHR ''0''" "isDigit 10 CHR ''0''"
  by (simp_all add: isDigit_def digitVal_def isWhiteSpace_def)

lemma digitsValue_snoc:
  "digitsValue radix (ds @ [c]) =
     digitsValue radix ds * radix + (case digitVal c of None \<Rightarrow> 0 | Some d \<Rightarrow> d)"
  by (simp add: digitsValue_def)

lemma positionalValue_snoc:
  "positionalValue radix (ds @ [c]) =
     positionalValue radix ds * radix + (case digitVal c of None \<Rightarrow> 0 | Some d \<Rightarrow> d)"
proof -
  have "(\<Sum>i<length ds. (case digitVal ((ds @ [c]) ! i) of None \<Rightarrow> 0 | Some d \<Rightarrow> d)
                        * radix ^ (Suc (length ds) - Suc i))
        = (\<Sum>i<length ds. (case digitVal (ds ! i) of None \<Rightarrow> 0 | Some d \<Rightarrow> d)
                        * radix ^ (length ds - Suc i) * radix)"
  proof (rule sum.cong)
    fix i assume "i \<in> {..<length ds}"
    then have i: "i < length ds" by simp
    then have "Suc (length ds) - Suc i = Suc (length ds - Suc i)" by simp
    with i show "(case digitVal ((ds @ [c]) ! i) of None \<Rightarrow> 0 | Some d \<Rightarrow> d)
                        * radix ^ (Suc (length ds) - Suc i)
        = (case digitVal (ds ! i) of None \<Rightarrow> 0 | Some d \<Rightarrow> d)
                        * radix ^ (length ds - Suc i) * radix"
      by (simp add: nth_append)
  qed simp
  then show ?thesis
    by (simp add: positionalValue_def sum_distrib_right)
qed

lemma digitsValue_positional: "digitsValue radix ds = positionalValue radix ds"
proof (induction ds rule: rev_induct)
  case Nil
  show ?case by (simp add: digitsValue_def positionalValue_def)
next
  case (snoc c ds)
  then show ?case by (simp add: digitsValue_snoc positionalValue_snoc)
qed

lemma takeWhile_digits:
  assumes "\<forall>c \<in> set ds. isDigit radix c" and "rest = [] \<or> \<not> isDigit radix (hd rest)"
  shows "takeWhile (isDigit radix) (ds @ rest) = ds"
proof (cases rest)
  case Nil
  with assms(1) show ?thesis by simp
next
  case (Cons x xs)
  with assms(2) have "\<not> isDigit radix x" by simp
  with assms(1) Cons show ?thesis
    by (simp add: takeWhile_tail)
qed


lemma bitLength_bounds: "0 < n \<Longrightarrow> 2 ^ (bitLength n - 1) \<le> n \<and> n < 2 ^ bitLength n"
proof (induction n rule: bitLength.induct)
  case (1 n)
  show ?case
  proof (cases "n div 2 = 0")
    case True
    with 1 have "n = 1" by (simp add: div_eq_0_iff)
    then show ?thesis by (simp add: bitLength.simps)
  next
    case False
    with 1 have ih: "2 ^ (bitLength (n div 2) - 1) \<le> n div 2" "n div 2 < 2 ^ bitLength (n div 2)"
      by simp_all
    have b: "bitLength n = Suc (bitLength (n div 2))"
      using 1(2) by (subst bitLength.simps) simp
    have pos: "0 < bitLength (n div 2)"
      using False by (subst bitLength.simps) simp
    then have "(2 :: nat) ^ bitLength (n div 2) = 2 * 2 ^ (bitLength (n div 2) - 1)"
      by (cases "bitLength (n div 2)") simp_all
    with ih(1) have "2 ^ bitLength (n div 2) \<le> n" by linarith
    moreover from ih(2) have "n < 2 * 2 ^ bitLength (n div 2)" by linarith
    ultimately show ?thesis by (simp add: b)
  qed
qed

lemma roundToDouble_ge:
  assumes "2 ^ 53 \<le> n"
  shows "2 ^ (bitLength n - 1) \<le> roundToDouble n"
proof -
  from assms have pos: "0 < n" by (cases "n = 0") simp_all
  define k where "k = bitLength n"
  have lo: "2 ^ (k - 1) \<le> n" and hi: "n < 2 ^ k"
    using bitLength_bounds [OF pos] by (simp_all add: k_def)
  from assms hi have "(2 :: nat) ^ 53 < 2 ^ k" by linarith
  then have k: "53 < k" by (rule power_less_imp_less_exp [rotated]) simp
  define e where "e = k - 53"
  have ke: "k - 1 = 52 + e" using k by (simp add: e_def)
  define q where "q = n div 2 ^ e"
  define c where "c = (2 :: nat) ^ 52"
  have "c * 2 ^ e \<le> n" using lo unfolding ke power_add c_def .
  then have q: "c \<le> q"
    unfolding q_def by (simp add: less_eq_div_iff_mult_less_eq)
  define q' where "q' = (if 2 ^ e < 2 * (n mod 2 ^ e) \<or> (2 * (n mod 2 ^ e) = 2 ^ e \<and> odd q)
                         then q + 1 else q)"
  have "c \<le> q'" using q by (simp add: q'_def)
  then have "c * 2 ^ e \<le> q' * 2 ^ e" by simp
  moreover have "roundToDouble n = q' * 2 ^ e"
    using assms by (simp add: roundToDouble_def Let_def q'_def q_def e_def k_def)
  moreover have "(2 :: nat) ^ (bitLength n - 1) = c * 2 ^ e"
    unfolding k_def [symmetric] ke power_add c_def ..
  ultimately show ?thesis by simp
qed

lemma roundToDouble_overflow:
  assumes "2 ^ 1024 \<le> n"
  shows "2 ^ 1024 \<le> roundToDouble n"
proof -
  have "(2 :: nat) ^ 53 \<le> 2 ^ 1024" by (rule power_increasing) simp_all
  with assms have n: "2 ^ 53 \<le> n" by linarith
  then have pos: "0 < n" by (cases "n = 0") simp_all
  from bitLength_bounds [OF pos] assms have "(2 :: nat) ^ 1024 < 2 ^ bitLength n" by linarith
  then have "1024 < bitLength n" by (rule power_less_imp_less_exp [rotated]) simp
  then have "1024 \<le> bitLength n - 1" by simp
  then have "(2 :: nat) ^ 1024 \<le> 2 ^ (bitLength n - 1)" by (rule power_increasing) simp
  with roundToDouble_ge [OF n] show ?thesis by linarith
qed

lemma toDouble_PosInf: "2 ^ 1024 \<le> i \<Longrightarrow> toDouble i = PosInf"
proof -
  assume a: "2 ^ 1024 \<le> i"
  then have "0 \<le> i" by (smt (verit) zero_le_power)
  with a have "2 ^ 1024 \<le> nat \<bar>i\<bar>" by (simp add: le_nat_iff)
  from roundToDouble_overflow [OF this] \<open>0 \<le> i\<close> show ?thesis
    by (simp add: toDouble_def Let_def)
qed

lemma toDouble_NegInf: "i \<le> - (2 ^ 1024) \<Longrightarrow> toDouble i = NegInf"
proof -
  assume a: "i \<le> - (2 ^ 1024)"
  have "(0 :: int) < 2 ^ 1024" by simp
  with a have neg: "i < 0" by linarith
  with a have "2 ^ 1024 \<le> nat \<bar>i\<bar>" by (simp add: le_nat_iff)
  from roundToDouble_overflow [OF this] neg show ?thesis
    by (simp add: toDouble_def Let_def)
qed

text \<open>
  What \<open>parseInt\<close> reads from a string made of white space, a sign, a prefix, a run of
  digits and a rest that does not continue the run.
\<close>

lemma parseInt_read:
  assumes ws: "\<forall>c \<in> set ws. isWhiteSpace c"
    and sg: "sg = [] \<or> sg = ''+'' \<or> sg = ''-''"
    and pre: "(pre = [] \<and> radix = 10
                 \<and> \<not> (ds = ''0'' \<and> rest \<noteq> [] \<and> (hd rest = CHR ''x'' \<or> hd rest = CHR ''X'')))
              \<or> ((pre = ''0x'' \<or> pre = ''0X'') \<and> radix = 16)"
    and ds: "ds \<noteq> []" "\<forall>c \<in> set ds. isDigit radix c"
    and rest: "rest = [] \<or> \<not> isDigit radix (hd rest)"
  shows "parseInt (ws @ sg @ pre @ ds @ rest)
           = toDouble ((if sg = ''-'' then - 1 else 1) * int (positionalValue radix ds))"
proof -
  obtain d ds' where dsc: "ds = d # ds'" using ds(1) by (cases ds) auto
  with ds(2) have d: "isDigit radix d" by simp
  define body where "body = pre @ ds @ rest"
  have hb: "body \<noteq> [] \<and> \<not> isWhiteSpace (hd body) \<and> hd body \<noteq> CHR ''-'' \<and> hd body \<noteq> CHR ''+''"
    using pre digit_char [OF d] by (auto simp: body_def dsc isWhiteSpace_def)
  then obtain b bs where bc: "body = b # bs" by (cases body) auto
  have hs: "\<not> isWhiteSpace (hd (sg @ body))"
    using sg hb by (auto simp: isWhiteSpace_def)
  have sgb: "sg @ body \<noteq> []" using hb by simp
  have s1: "dropWhile isWhiteSpace (ws @ sg @ body) = sg @ body"
  proof -
    have "dropWhile isWhiteSpace (ws @ sg @ body) = dropWhile isWhiteSpace (sg @ body)"
      using ws by (simp add: dropWhile_append2)
    also have "\<dots> = sg @ body" using hs sgb by (cases "sg @ body") simp_all
    finally show ?thesis .
  qed
  have s2: "(case sg @ body of
                          [] \<Rightarrow> (1 :: int, sg @ body)
                        | c # r \<Rightarrow> if c = CHR ''-'' then (- 1, r)
                                   else if c = CHR ''+'' then (1, r) else (1, sg @ body))
             = ((if sg = ''-'' then - 1 else 1), body)"
    using sg hb bc by auto
  have s3: "(case body of
                           c # x # r \<Rightarrow> if c = CHR ''0'' \<and> (x = CHR ''x'' \<or> x = CHR ''X'')
                                        then (16 :: nat, r) else (10, body)
                         | _ \<Rightarrow> (10, body)) = (radix, ds @ rest)"
  proof -
    from pre consider
      (dec) "pre = []" "radix = 10"
        "\<not> (ds = ''0'' \<and> rest \<noteq> [] \<and> (hd rest = CHR ''x'' \<or> hd rest = CHR ''X''))"
      | (hex) "pre = ''0x'' \<or> pre = ''0X''" "radix = 16"
      by blast
    then show ?thesis
    proof cases
    case dec
    note p = dec(1,2) and z = dec(3)
    show ?thesis
    proof (cases ds')
      case Nil
      with z dsc p show ?thesis
        by (cases rest) (auto simp: body_def)
    next
      case (Cons d2 ds2)
      with ds(2) dsc p have "isDigit 10 d2" by simp
      with x_not_decimal have "d2 \<noteq> CHR ''x'' \<and> d2 \<noteq> CHR ''X''" by auto
      with Cons dsc p show ?thesis by (simp add: body_def)
    qed
  next
    case hex
    then show ?thesis by (auto simp: body_def)
  qed
  qed
  have tw: "takeWhile (isDigit radix) (ds @ rest) = ds"
    using ds(2) rest by (rule takeWhile_digits)
  have "parseInt (ws @ sg @ body)
          = toDouble ((if sg = ''-'' then - 1 else 1) * int (digitsValue radix ds))"
    unfolding parseInt_def s1 Let_def s2 prod.case s3 tw using ds(1) by simp
  then show ?thesis by (simp add: body_def digitsValue_positional)
qed




lemma parsePace_two:
  assumes "count_list s CHR '':'' = 1"
  shows "parsePace s =
          Some (number_add
                  (number_mul (parseInt (takeWhile (\<lambda>c. c \<noteq> CHR '':'') s)) (Finite 60))
                  (parseInt (tl (dropWhile (\<lambda>c. c \<noteq> CHR '':'') s))))"
  using assms by (simp add: parsePace_def Let_def js_split_two)




text \<open>
  Two hexadecimal parts of 257 digits are infinities; with opposite signs their sum is
  \<open>NaN\<close> although both parts begin with an integer.
\<close>

lemma positionalValue_zeros:
  "positionalValue radix (ds @ replicate n CHR ''0'') = positionalValue radix ds * radix ^ n"
proof (induction n)
  case 0
  show ?case by simp
next
  case (Suc n)
  have "ds @ replicate (Suc n) CHR ''0'' = (ds @ replicate n CHR ''0'') @ [CHR ''0'']"
    by (simp add: replicate_append_same)
  then show ?case
    by (simp only: positionalValue_snoc Suc) (simp add: digitVal_def)
qed

lemma parseInt_hex_overflow:
  "parseInt (''0x1'' @ replicate 256 CHR ''0'') = PosInf"
  "parseInt (''-0x1'' @ replicate 256 CHR ''0'') = NegInf"
proof -
  define ds where "ds = ''1'' @ replicate 256 CHR ''0''"
  have d: "ds \<noteq> []" "\<forall>c \<in> set ds. isDigit 16 c"
    by (auto simp: ds_def isDigit_def digitVal_def)
  have "positionalValue 16 ds = positionalValue 16 ''1'' * 16 ^ 256"
    unfolding ds_def by (rule positionalValue_zeros)
  also have "positionalValue 16 ''1'' = 1"
    by (simp add: positionalValue_def digitVal_def)
  finally have v: "int (positionalValue 16 ds) = 2 ^ 1024" by simp
  have "parseInt ([] @ [] @ ''0x'' @ ds @ []) = toDouble ((if [] = ''-'' then - 1 else 1) * int (positionalValue 16 ds))"
    by (rule parseInt_read) (use d in simp_all)
  then show "parseInt (''0x1'' @ replicate 256 CHR ''0'') = PosInf"
    unfolding v by (simp add: ds_def toDouble_PosInf)
  have "parseInt ([] @ ''-'' @ ''0x'' @ ds @ []) = toDouble ((if ''-'' = ''-'' then - 1 else 1) * int (positionalValue 16 ds))"
    by (rule parseInt_read) (use d in simp_all)
  then show "parseInt (''-0x1'' @ replicate 256 CHR ''0'') = NegInf"
    unfolding v by (simp add: ds_def toDouble_NegInf)
qed

lemma parsePace_opposite_infinities:
  "parsePace (''0x1'' @ replicate 256 CHR ''0'' @ '':-0x1'' @ replicate 256 CHR ''0'') = Some NaN"
proof -
  define a where "a = ''0x1'' @ replicate 256 CHR ''0''"
  define b where "b = ''-0x1'' @ replicate 256 CHR ''0''"
  have s: "''0x1'' @ replicate 256 CHR ''0'' @ '':-0x1'' @ replicate 256 CHR ''0'' = a @ '':'' @ b"
    by (simp add: a_def b_def)
  have na: "CHR '':'' \<notin> set a" and nb: "CHR '':'' \<notin> set b"
    by (auto simp: a_def b_def)
  have cnt: "count_list (a @ '':'' @ b) CHR '':'' = 1"
    using na nb by (simp add: count_list_0_iff)
  have tk: "takeWhile (\<lambda>c. c \<noteq> CHR '':'') (a @ '':'' @ b) = a"
    using na by (auto simp: takeWhile_tail)
  have "dropWhile (\<lambda>c. c \<noteq> CHR '':'') (a @ '':'' @ b) = '':'' @ b"
    using na by (induction a) auto
  then have dr: "tl (dropWhile (\<lambda>c. c \<noteq> CHR '':'') (a @ '':'' @ b)) = b"
    by simp
  have "parseInt a = PosInf" "parseInt b = NegInf"
    unfolding a_def b_def by (rule parseInt_hex_overflow)+
  then show ?thesis
    unfolding s parsePace_two [OF cnt] tk dr by simp
qed




section \<open>Properties of the PMC engine\<close>

subsection \<open>The days of a range\<close>

lemma rome_short: "generateDateRange europeRome2024 19811 19814 = [19811, 19812, 19813, 19813]"
  by (simp add: generateDateRange_def newDate_def dateLoop.simps formatDate_def setDateNext_def
      utcTime_def localTime_def europeRome2024_def msPerDay_def msPerHour_def)

lemma rome_long:
  "generateDateRange europeRome2024 19811 19816 = [19811, 19812, 19813, 19813, 19814, 19815]"
  by (simp add: generateDateRange_def newDate_def dateLoop.simps formatDate_def setDateNext_def
      utcTime_def localTime_def europeRome2024_def msPerDay_def msPerHour_def)


lemma setDateNext_fixed: "\<forall>t. \<not> isDST z t \<Longrightarrow> setDateNext z t = t + msPerDay"
  by (simp add: setDateNext_def utcTime_def localTime_def)

lemma formatDate_newDate: "formatDate (newDate d) = d"
  by (simp add: formatDate_def newDate_def msPerDay_def)

lemma newDate_le: "newDate a \<le> newDate b \<longleftrightarrow> a \<le> b"
  by (simp add: newDate_def msPerDay_def)

lemma newDate_next: "newDate a + msPerDay = newDate (a + 1)"
  by (simp add: newDate_def algebra_simps)

lemma dateLoop_fixed:
  assumes "\<forall>t. \<not> isDST z t"
  shows "dateLoop z (newDate a) (newDate b) = [a..b]"
proof (induction "nat (b + 1 - a)" arbitrary: a)
  case 0
  then have "\<not> a \<le> b" by simp
  then show ?case
    by (simp add: dateLoop.simps [of z "newDate a"] newDate_le)
next
  case (Suc n)
  then have le: "a \<le> b" by simp
  from Suc have "n = nat (b + 1 - (a + 1))" by simp
  then have "dateLoop z (newDate (a + 1)) (newDate b) = [a + 1..b]"
    by (rule Suc.hyps(1))
  with le show ?case
    by (simp add: dateLoop.simps [of z "newDate a"] newDate_le formatDate_newDate
        setDateNext_fixed [OF assms] newDate_next upto_rec1 [of a b])
qed

lemma generateDateRange_fixed: "\<forall>t. \<not> isDST z t \<Longrightarrow> generateDateRange z a b = [a..b]"
  by (simp add: generateDateRange_def dateLoop_fixed)

lemma generateDateRange_single: "generateDateRange z d d = [d]"
proof -
  have "\<not> setDateNext z (newDate d) \<le> newDate d"
    using setDateNext_later [of "newDate d" z] by simp
  then show ?thesis
    by (simp add: generateDateRange_def dateLoop.simps [of z "newDate d"]
        dateLoop.simps [of z "setDateNext z (newDate d)"] formatDate_newDate)
qed

lemma dateLoop_prefix:
  "e1 \<le> e2 \<Longrightarrow> \<exists>rest. dateLoop z c e2 = dateLoop z c e1 @ rest"
proof (induction z c e1 rule: dateLoop.induct)
  case (1 z current final)
  show ?case
  proof (cases "current \<le> final")
    case False
    then show ?thesis by (simp add: dateLoop.simps [of z current final])
  next
    case True
    with "1.prems" have le2: "current \<le> e2" by simp
    obtain rest where "dateLoop z (setDateNext z current) e2
        = dateLoop z (setDateNext z current) final @ rest"
      using "1.IH" [OF True "1.prems"] by blast
    with True le2 show ?thesis
      by (simp add: dateLoop.simps [of z current final] dateLoop.simps [of z current e2])
  qed
qed

subsection \<open>The loop of calculate\<close>

lemma calculateLoop_results:
  "fst (calculateLoop ledger ds c a pmc res) = res @ fst (calculateLoop ledger ds c a pmc' [])"
proof (induction ds arbitrary: c a pmc pmc' res)
  case Nil
  show ?case by simp
next
  case (Cons d ds)
  show ?case
    apply (simp add: Let_def)
    apply (subst Cons.IH [where pmc' = pmc'])
    apply (subst (2) Cons.IH [where pmc' = pmc'])
    apply simp
    done
qed


lemma calculateLoop_dates:
  "map entry_date (fst (calculateLoop ledger ds c a pmc res)) = map entry_date res @ ds"
  by (induction ds arbitrary: c a pmc res) (auto simp: Let_def)

lemma calculateLoop_append:
  "fst (calculateLoop ledger (xs @ ys) c a pmc res) =
     fst (calculateLoop ledger xs c a pmc res) @
     fst (calculateLoop ledger ys
            (fst (foldl (\<lambda>acc d. pmcUpdate (getTSS ledger d) acc) (c, a) xs))
            (snd (foldl (\<lambda>acc d. pmcUpdate (getTSS ledger d) acc) (c, a) xs)) pmc' [])"
proof (induction xs arbitrary: c a pmc res)
  case Nil
  show ?case using calculateLoop_results [of ledger ys c a pmc res pmc'] by simp
next
  case (Cons x xs)
  show ?case by (simp add: Let_def Cons.IH pmcUpdate_def)
qed


lemma calculate_results:
  "fst (calculate eng z startDate endDate today) =
     (if dailyTSS eng = [] then []
      else fst (calculateLoop (dailyTSS eng) (requestedDays eng z startDate endDate today) 0 0
             (pmcData eng) []))"
proof -
  have "length (sort (map fst (dailyTSS eng))) = 0 \<longleftrightarrow> dailyTSS eng = []"
    by simp
  then show ?thesis
    by (simp add: calculate_def requestedDays_def Let_def split: prod.splits
        del: length_0_conv length_sort)
qed

subsection \<open>The empty ledger\<close>

text \<open>
  Claim C10. With an empty ledger \<open>calculate\<close> returns the empty array and leaves the
  table \<open>pmcData\<close> as it was, whatever the requested start and end and the time zone: no
  entry is made for the days of the range.
\<close>

theorem empty_ledger_no_entries:
  "calculate \<lparr>dailyTSS = [], pmcData = pmc\<rparr> z startDate endDate today
     = ([], \<lparr>dailyTSS = [], pmcData = pmc\<rparr>)"
  by (simp add: calculate_def)

subsection \<open>The balance is taken before the update\<close>



subsection \<open>Extending the range\<close>

text \<open>
  In every zone the entries of the shorter range are an initial segment of those of the
  longer one. Where the zone has no daylight saving time the days of a range are the
  interval from its first to its last day, and the entries for the days up to \<open>T\<close> are
  the same whether the range ends at \<open>T\<close> or later.
\<close>

lemma calculate_prefix:
  "\<exists>more. fst (calculate eng z startDate (Some (T + int k)) today)
            = fst (calculate eng z startDate (Some T) today) @ more"
proof (cases "dailyTSS eng = []")
  case True
  then show ?thesis by (simp add: calculate_results)
next
  case False
  define a where "a = (case startDate of Some d \<Rightarrow> d | None \<Rightarrow> sort (map fst (dailyTSS eng)) ! 0)"
  have "newDate T \<le> newDate (T + int k)"
    by (simp add: newDate_le)
  then obtain rest where rest: "generateDateRange z a (T + int k) = generateDateRange z a T @ rest"
    unfolding generateDateRange_def using dateLoop_prefix by blast
  have "fst (calculateLoop (dailyTSS eng) (generateDateRange z a T @ rest) 0 0 (pmcData eng) [])
          = fst (calculateLoop (dailyTSS eng) (generateDateRange z a T) 0 0 (pmcData eng) []) @
            fst (calculateLoop (dailyTSS eng) rest
              (fst (foldl (\<lambda>acc d. pmcUpdate (getTSS (dailyTSS eng) d) acc) (0, 0)
                      (generateDateRange z a T)))
              (snd (foldl (\<lambda>acc d. pmcUpdate (getTSS (dailyTSS eng) d) acc) (0, 0)
                      (generateDateRange z a T))) (pmcData eng) [])"
    by (rule calculateLoop_append)
  then show ?thesis
    using False by (simp add: calculate_results requestedDays_def a_def [symmetric] rest)
qed

lemma upto_extend:
  "\<exists>rest. [a..T + int k] = [a..T] @ rest \<and> (\<forall>d \<in> set rest. T < d)"
proof (cases "a \<le> T")
  case True
  have "[a..T + int k] = [a..T] @ [T + 1..T + int k]"
    using True by (intro upto_split2) simp_all
  moreover have "\<forall>d \<in> set [T + 1..T + int k]. T < d"
    by simp
  ultimately show ?thesis by (rule_tac x = "[T + 1..T + int k]" in exI) (rule conjI)
next
  case False
  have "[a..T] = []"
    using False by simp
  then have "[a..T + int k] = [a..T] @ [a..T + int k]"
    by (simp only: append_Nil)
  moreover have "\<forall>d \<in> set [a..T + int k]. T < d"
    using False by simp
  ultimately show ?thesis by (rule_tac x = "[a..T + int k]" in exI) (rule conjI)
qed

lemma filter_dates_all:
  "\<forall>d \<in> set (map entry_date es). d \<le> T \<Longrightarrow> filter (\<lambda>p. entry_date p \<le> T) es = es"
  by (induction es) auto

lemma filter_dates_none:
  "\<forall>d \<in> set (map entry_date es). T < d \<Longrightarrow> filter (\<lambda>p. entry_date p \<le> T) es = []"
  by (induction es) auto

lemma calculate_results_upto:
  "\<forall>t. \<not> isDST z t \<Longrightarrow> dailyTSS eng \<noteq> [] \<Longrightarrow>
   fst (calculate eng z startDate (Some e) today) =
     fst (calculateLoop (dailyTSS eng)
            [(case startDate of Some d \<Rightarrow> d | None \<Rightarrow> sort (map fst (dailyTSS eng)) ! 0)..e]
            0 0 (pmcData eng) [])"
  by (simp add: calculate_results requestedDays_def generateDateRange_fixed)

lemma range_superset_without_dst:
  assumes "\<forall>t. \<not> isDST z t"
  shows "filter (\<lambda>p. entry_date p \<le> T) (fst (calculate eng z startDate (Some (T + int k)) today))
     = fst (calculate eng z startDate (Some T) today)"
proof (cases "dailyTSS eng = []")
  case True
  then show ?thesis by (simp add: calculate_results)
next
  case False
  define a where "a = (case startDate of Some d \<Rightarrow> d | None \<Rightarrow> sort (map fst (dailyTSS eng)) ! 0)"
  define ledger where "ledger = dailyTSS eng"
  obtain rest where rest: "[a..T + int k] = [a..T] @ rest" "\<forall>d \<in> set rest. T < d"
    using upto_extend by blast
  define acc where "acc = foldl (\<lambda>acc d. pmcUpdate (getTSS ledger d) acc) (0, 0) [a..T]"
  define short where "short = fst (calculateLoop ledger [a..T] 0 0 (pmcData eng) [])"
  define more where "more = fst (calculateLoop ledger rest (fst acc) (snd acc) (pmcData eng) [])"
  have "fst (calculate eng z startDate (Some (T + int k)) today)
          = fst (calculateLoop ledger [a..T + int k] 0 0 (pmcData eng) [])"
    using False unfolding a_def ledger_def by (rule calculate_results_upto [OF assms])
  also have "\<dots> = fst (calculateLoop ledger ([a..T] @ rest) 0 0 (pmcData eng) [])"
    by (simp only: rest(1))
  also have "\<dots> = short @ more"
    unfolding short_def more_def acc_def by (rule calculateLoop_append)
  finally have long: "fst (calculate eng z startDate (Some (T + int k)) today) = short @ more" .
  have short: "fst (calculate eng z startDate (Some T) today) = short"
    using False unfolding a_def ledger_def short_def by (rule calculate_results_upto [OF assms])
  have "map entry_date short = [a..T]"
    unfolding short_def by (simp add: calculateLoop_dates)
  then have keep: "filter (\<lambda>p. entry_date p \<le> T) short = short"
    by (intro filter_dates_all) simp
  have "map entry_date more = rest"
    unfolding more_def by (simp add: calculateLoop_dates)
  then have drop: "filter (\<lambda>p. entry_date p \<le> T) more = []"
    using rest(2) by (intro filter_dates_none) simp
  show ?thesis
    unfolding long short by (simp add: keep drop)
qed

text \<open>
  Claim C6 at a range that crosses the start of summer time. \<open>generateDateRange\<close> steps
  with \<open>setDate\<close>, in local time, and prints the day in UTC. In Central European Time the
  walk from 2024-03-29 (day 19811) reaches local 01:00 on April 1, which is 23:00 UTC on
  March 31: that day is listed twice and the last day of the range is left out. Up to
  2024-04-01 (day 19814) the days are 03-29, 03-30, 03-31, 03-31; up to 2024-04-03 an
  entry for 04-01 appears, so the entries for the days up to 04-01 differ between the two
  ranges.
\<close>

theorem range_superset_fails_across_dst:
  "map entry_date (fst (calculate \<lparr>dailyTSS = [(19811, 100)], pmcData = []\<rparr> europeRome2024
                          None (Some 19814) 19816))
     = [19811, 19812, 19813, 19813]
   \<and> map entry_date (fst (calculate \<lparr>dailyTSS = [(19811, 100)], pmcData = []\<rparr> europeRome2024
                            None (Some 19816) 19816))
     = [19811, 19812, 19813, 19813, 19814, 19815]
   \<and> filter (\<lambda>p. entry_date p \<le> 19814)
         (fst (calculate \<lparr>dailyTSS = [(19811, 100)], pmcData = []\<rparr> europeRome2024
                 None (Some 19816) 19816))
     \<noteq> fst (calculate \<lparr>dailyTSS = [(19811, 100)], pmcData = []\<rparr> europeRome2024
              None (Some 19814) 19816)"
proof -
  let ?eng = "\<lparr>dailyTSS = [(19811, 100)], pmcData = []\<rparr>"
  let ?short = "fst (calculate ?eng europeRome2024 None (Some 19814) 19816)"
  let ?long = "fst (calculate ?eng europeRome2024 None (Some 19816) 19816)"
  have "?short = fst (calculateLoop [(19811, 100)] [19811, 19812, 19813, 19813] 0 0 [] [])"
    by (simp add: calculate_results requestedDays_def rome_short del: calculateLoop.simps)
  then have short: "map entry_date ?short = [19811, 19812, 19813, 19813]"
    by (simp only: calculateLoop_dates list.map append_Nil)
  have "?long = fst (calculateLoop [(19811, 100)] [19811, 19812, 19813, 19813, 19814, 19815]
                       0 0 [] [])"
    by (simp add: calculate_results requestedDays_def rome_long del: calculateLoop.simps)
  then have long: "map entry_date ?long = [19811, 19812, 19813, 19813, 19814, 19815]"
    by (simp only: calculateLoop_dates list.map append_Nil)
  have "map entry_date (filter (\<lambda>p. entry_date p \<le> 19814) ?long)
          = filter (\<lambda>d. d \<le> 19814) (map entry_date ?long)"
    by (simp add: filter_map comp_def)
  also have "\<dots> = [19811, 19812, 19813, 19813, 19814]"
    unfolding long by simp
  finally have "map entry_date (filter (\<lambda>p. entry_date p \<le> 19814) ?long) \<noteq> map entry_date ?short"
    unfolding short by simp
  then have "filter (\<lambda>p. entry_date p \<le> 19814) ?long \<noteq> ?short"
    by auto
  with short long show ?thesis
    by simp
qed

subsection \<open>The first day of a ledger\<close>

lemma exp_42_bounds:
  "97647 / 100000 < exp (- 1 / 42 :: real)" "exp (- 1 / 42 :: real) < 97648 / 100000"
proof -
  obtain t :: real where t: "\<bar>t\<bar> \<le> \<bar>- 1 / 42 :: real\<bar>"
    and e: "exp (- 1 / 42 :: real)
              = (\<Sum>m<3. ((- 1 / 42) ^ m) / fact m) + (exp t / fact 3) * (- 1 / 42) ^ 3"
    using Maclaurin_exp_le [of "- 1 / 42" 3] by blast
  have sum: "(\<Sum>m<3. ((- 1 / 42 :: real) ^ m) / fact m) = 3445 / 3528"
    by (simp add: numeral_3_eq_3 power2_eq_square fact_numeral)
  have e': "exp (- 1 / 42 :: real) = 3445 / 3528 - exp t / 444528"
    using e unfolding sum by (simp add: fact_numeral power3_eq_cube)
  have pos: "0 < exp t" by simp
  show "exp (- 1 / 42 :: real) < 97648 / 100000"
    unfolding e' using pos by linarith
  from t have "t \<le> 1 / 42" by simp
  then have "exp t \<le> exp (1 / 42)" by simp
  also have "\<dots> \<le> 1 + 1 / 42 + (1 / 42)\<^sup>2"
    by (rule exp_bound) simp_all
  also have "\<dots> \<le> 3 / 2" by (simp add: power2_eq_square)
  finally have "exp t \<le> 3 / 2" .
  then show "97647 / 100000 < exp (- 1 / 42 :: real)"
    unfolding e' by linarith
qed

lemma exp_7_bounds:
  "8665 / 10000 < exp (- 1 / 7 :: real)" "exp (- 1 / 7 :: real) < 8674 / 10000"
proof -
  obtain t :: real where t: "\<bar>t\<bar> \<le> \<bar>- 1 / 7 :: real\<bar>"
    and e: "exp (- 1 / 7 :: real)
              = (\<Sum>m<3. ((- 1 / 7) ^ m) / fact m) + (exp t / fact 3) * (- 1 / 7) ^ 3"
    using Maclaurin_exp_le [of "- 1 / 7" 3] by blast
  have sum: "(\<Sum>m<3. ((- 1 / 7 :: real) ^ m) / fact m) = 85 / 98"
    by (simp add: numeral_3_eq_3 power2_eq_square fact_numeral)
  have e': "exp (- 1 / 7 :: real) = 85 / 98 - exp t / 2058"
    using e unfolding sum by (simp add: fact_numeral power3_eq_cube)
  have pos: "0 < exp t" by simp
  show "exp (- 1 / 7 :: real) < 8674 / 10000"
    unfolding e' using pos by linarith
  from t have "t \<le> 1 / 7" by simp
  then have "exp t \<le> exp (1 / 7)" by simp
  also have "\<dots> \<le> 1 + 1 / 7 + (1 / 7)\<^sup>2"
    by (rule exp_bound) simp_all
  also have "\<dots> \<le> 3 / 2" by (simp add: power2_eq_square)
  finally have "exp t \<le> 3 / 2" .
  then show "8665 / 10000 < exp (- 1 / 7 :: real)"
    unfolding e' by linarith
qed

lemma first_day_ctl: "2352 / 1000 < 100 * (1 - ctlDecay)" "100 * (1 - ctlDecay) < 2354 / 1000"
  using exp_42_bounds unfolding ctlDecay_def by simp_all

lemma first_day_atl: "1326 / 100 < 100 * (1 - atlDecay)" "100 * (1 - atlDecay) < 1335 / 100"
  using exp_7_bounds unfolding atlDecay_def by simp_all

lemma round1_ctl: "round1 (100 * (1 - ctlDecay)) = 24 / 10"
proof -
  have "\<lfloor>100 * (1 - ctlDecay) * 10 + 1 / 2\<rfloor> = 24"
    using first_day_ctl by (intro floor_unique) simp_all
  then show ?thesis by (simp add: round1_def)
qed

lemma round1_atl: "round1 (100 * (1 - atlDecay)) = 133 / 10"
proof -
  have "\<lfloor>100 * (1 - atlDecay) * 10 + 1 / 2\<rfloor> = 133"
    using first_day_atl by (intro floor_unique) simp_all
  then show ?thesis by (simp add: round1_def)
qed

lemma first_day_loop:
  "fst (calculate \<lparr>dailyTSS = [(d, 100)], pmcData = []\<rparr> z None (Some d) today)
     = [\<lparr>entry_date = d, entry_tss = 100, entry_ctl = round1 (100 * (1 - ctlDecay)),
         entry_atl = round1 (100 * (1 - atlDecay)), entry_tsb = round1 0\<rparr>]"
proof -
  have "fst (calculate \<lparr>dailyTSS = [(d, 100)], pmcData = []\<rparr> z None (Some d) today)
          = fst (calculateLoop [(d, 100)] [d] 0 0 [] [])"
    by (simp add: calculate_def Let_def generateDateRange_single split: prod.splits)
  also have "\<dots> = [\<lparr>entry_date = d, entry_tss = 100,
                      entry_ctl = round1 (100 * (1 - ctlDecay)),
                      entry_atl = round1 (100 * (1 - atlDecay)), entry_tsb = round1 0\<rparr>]"
    by (simp add: Let_def getTSS_def)
  finally show ?thesis .
qed

lemma first_day_update: "pmcUpdate 100 (0, 0) = (100 * (1 - ctlDecay), 100 * (1 - atlDecay))"
  by (simp add: pmcUpdate_def)

text \<open>
  Claim C7, as the engine computes it. For a ledger with the single day \<open>d\<close> and a score
  of 100, the entry of that first day has \<open>tsb = 0\<close>, \<open>ctl = 2.4\<close> and \<open>atl = 13.3\<close>, in
  every time zone; the accumulators after the day, before rounding, lie between 2.352 and
  2.354 and between 13.26 and 13.35.
\<close>

theorem first_day_entry:
  "fst (calculate \<lparr>dailyTSS = [(d, 100)], pmcData = []\<rparr> z None (Some d) today)
     = [\<lparr>entry_date = d, entry_tss = 100, entry_ctl = 24 / 10, entry_atl = 133 / 10,
         entry_tsb = 0\<rparr>]
   \<and> 2352 / 1000 < fst (pmcUpdate 100 (0, 0)) \<and> fst (pmcUpdate 100 (0, 0)) < 2354 / 1000
   \<and> 1326 / 100 < snd (pmcUpdate 100 (0, 0)) \<and> snd (pmcUpdate 100 (0, 0)) < 1335 / 100"
proof -
  have r0: "round1 0 = 0"
    by (simp add: round1_def)
  have "fst (calculate \<lparr>dailyTSS = [(d, 100)], pmcData = []\<rparr> z None (Some d) today)
     = [\<lparr>entry_date = d, entry_tss = 100, entry_ctl = 24 / 10, entry_atl = 133 / 10,
         entry_tsb = 0\<rparr>]"
    unfolding first_day_loop by (simp only: round1_ctl round1_atl r0)
  then show ?thesis
    unfolding first_day_update fst_conv snd_conv
    using first_day_ctl first_day_atl by blast
qed

text \<open>
  Claim C7 as stated gives \<open>atl\<close> as about 13.08. Neither the stored value nor the
  accumulator before rounding is within 0.1 of 13.08.
\<close>

theorem first_day_entry_counterexample:
  "\<not> (\<bar>entry_atl (hd (fst (calculate \<lparr>dailyTSS = [(0, 100)], pmcData = []\<rparr> utc None (Some 0) 0)))
         - 1308 / 100\<bar> \<le> 1 / 10)
   \<and> \<not> (\<bar>snd (pmcUpdate 100 (0, 0)) - 1308 / 100\<bar> \<le> 1 / 10)"
proof -
  have "entry_atl (hd (fst (calculate \<lparr>dailyTSS = [(0, 100)], pmcData = []\<rparr> utc None (Some 0) 0)))
          = round1 (100 * (1 - atlDecay))"
    unfolding first_day_loop by simp
  then have "entry_atl (hd (fst (calculate \<lparr>dailyTSS = [(0, 100)], pmcData = []\<rparr> utc None (Some 0) 0)))
          = 133 / 10"
    by (simp only: round1_atl)
  moreover have "\<not> (\<bar>snd (pmcUpdate 100 (0, 0)) - 1308 / 100\<bar> \<le> 1 / 10)"
    unfolding first_day_update snd_conv using first_day_atl(1) by linarith
  ultimately show ?thesis
    by simp
qed

end
